theory Spec2Isabelle
  imports Main "HOL-Library.Word"
begin

section \<open>The AES-GCM password vault (PasswordVault/vault_aes.c, PasswordVault/crypto.c)\<close>

text \<open>
  A shallow embedding of the encrypted vault: the TSV rows kept in memory, the plaintext
  blob, the binary container, the wrappers around the cipher and the key derivation, the
  atomic save, and the commands \<open>init\<close>, \<open>add\<close> and \<open>show\<close>.

  Conventions. A C \<open>char\<close> and a \<open>uint8_t\<close> are both one 8-bit byte, which is what a HOL
  \<open>char\<close> is, so C strings and byte buffers are both \<open>char list\<close>. A value of type
  \<open>string\<close> that stands for a \<open>char *\<close> holds the bytes before the terminating NUL; where
  the code reads a terminated buffer, the model cuts at the first NUL (\<open>c_str\<close>).
  \<open>uint32_t\<close> is \<open>32 word\<close>. \<open>size_t\<close> is taken to be 64 bits wide (an LP64 host, as
  the Linux build line targets): lengths and offsets are natural numbers, and the one
  \<open>size_t\<close> sum over a value read from the file is computed in 64-bit words, so that it
  wraps where the C sum wraps.
\<close>

subsection \<open>Format constants\<close>

type_synonym bytes = "char list"

definition NUL :: char where "NUL = CHR 0x00"
definition TAB :: char where "TAB = CHR 0x09"
definition LF :: char where "LF = CHR 0x0A"

definition MAGIC :: bytes where "MAGIC = ''VAES1'' @ [LF]"
definition MAGIC_LEN :: nat where "MAGIC_LEN = 6"
definition VAULT_FILE :: string where "VAULT_FILE = ''vault_aes.dat''"
definition SALT_LEN :: nat where "SALT_LEN = 16"
definition NONCE_LEN :: nat where "NONCE_LEN = 12"
definition TAG_LEN :: nat where "TAG_LEN = 16"
definition KEY_LEN :: nat where "KEY_LEN = 32"
definition PBKDF2_ITERS :: "32 word" where "PBKDF2_ITERS = 200000"
definition MAX_LINE :: nat where "MAX_LINE = 1024"

text \<open>\<open>size_t\<close> addition: unsigned, 64 bits, wrapping.\<close>

definition size_t_add :: "nat \<Rightarrow> nat \<Rightarrow> nat" where
  "size_t_add a b = unat (word_of_nat a + word_of_nat b :: 64 word)"

subsection \<open>C strings and buffers\<close>

text \<open>The text a terminated buffer holds: the bytes before its first NUL.\<close>

definition c_str :: "bytes \<Rightarrow> string" where
  "c_str buf = takeWhile (\<lambda>c. c \<noteq> NUL) buf"

text \<open>
  \<open>buf_write buf data\<close>: the buffer after a callee has written \<open>data\<close> at its start; the
  bytes behind stay as they were and the buffer keeps its size.
\<close>

definition buf_write :: "bytes \<Rightarrow> bytes \<Rightarrow> bytes" where
  "buf_write buf data = take (length buf) (data @ drop (length data) buf)"

text \<open>\<open>secure_bzero p n\<close>: the first \<open>n\<close> bytes of the buffer are set to zero.\<close>

definition secure_bzero :: "bytes \<Rightarrow> nat \<Rightarrow> bytes" where
  "secure_bzero p n = replicate (min n (length p)) NUL @ drop n p"

text \<open>
  \<open>strtok_r(s, delim, &save)\<close> on the text that is left: skip the leading delimiters; if
  nothing is left there is no token; otherwise the token runs to the next delimiter,
  which is overwritten by NUL, and the scan resumes behind it.
\<close>

definition strtok_r :: "string \<Rightarrow> string \<Rightarrow> (string \<times> string) option" where
  "strtok_r s delim =
     (let s' = dropWhile (\<lambda>c. c \<in> set delim) s in
      if s' = [] then None
      else Some (takeWhile (\<lambda>c. c \<notin> set delim) s',
                 drop 1 (dropWhile (\<lambda>c. c \<notin> set delim) s')))"

subsection \<open>Four-byte integers in memory\<close>

text \<open>
  The container's two integers are moved with \<open>memcpy(out+off, &x, 4)\<close> and
  \<open>memcpy(&x, buf+off, 4)\<close>: the bytes are those of the host's representation of a
  \<open>uint32_t\<close>. The host's byte order is a parameter of the model.
\<close>

datatype endian = LittleEndian | BigEndian

definition le_bytes32 :: "32 word \<Rightarrow> bytes" where
  "le_bytes32 x =
     (let n = unat x in
      [char_of n, char_of (n div 256), char_of (n div 65536), char_of (n div 16777216)])"

definition le_word32 :: "bytes \<Rightarrow> 32 word" where
  "le_word32 bs =
     (case bs of
        [b0, b1, b2, b3] \<Rightarrow>
          of_nat (of_char b0 + 256 * (of_char b1 + 256 * (of_char b2 + 256 * of_char b3)))
      | _ \<Rightarrow> 0)"

definition store_u32 :: "endian \<Rightarrow> 32 word \<Rightarrow> bytes" where
  "store_u32 host x = (case host of LittleEndian \<Rightarrow> le_bytes32 x | BigEndian \<Rightarrow> rev (le_bytes32 x))"

definition load_u32 :: "endian \<Rightarrow> bytes \<Rightarrow> 32 word" where
  "load_u32 host bs = (case host of LittleEndian \<Rightarrow> le_word32 bs | BigEndian \<Rightarrow> le_word32 (rev bs))"

subsection \<open>The platform: OpenSSL and the heap\<close>

text \<open>
  crypto.c wraps OpenSSL, which is not part of the repository; its entry points are
  parameters. Each returns \<open>None\<close> where the C call does not return 1.
  \<^item> \<open>PKCS5_PBKDF2_HMAC E password salt iters n\<close>: the derived key of \<open>n\<close> bytes.
  \<^item> \<open>EVP_EncryptUpdate E key nonce pt\<close>: the ciphertext bytes written (covers context
    creation, both init calls and the update).
  \<^item> \<open>EVP_GCM_GET_TAG E key nonce pt\<close>: the tag (covers \<open>EVP_EncryptFinal_ex\<close> and the
    tag control call).
  \<^item> \<open>EVP_DecryptUpdate E key nonce ct\<close>: the bytes the update writes to the output
    buffer (covers context creation and both init calls).
  \<^item> \<open>EVP_DecryptFinal E key nonce ct tag\<close>: whether setting the expected tag and
    \<open>EVP_DecryptFinal_ex\<close> both return 1, which is where the tag is compared.
  \<^item> \<open>heap_junk E i\<close>: the indeterminate byte at offset \<open>i\<close> of a fresh \<open>malloc\<close> block or
    an uninitialised array.
\<close>

record env =
  host_endian :: endian
  PKCS5_PBKDF2_HMAC :: "string \<Rightarrow> bytes \<Rightarrow> 32 word \<Rightarrow> nat \<Rightarrow> bytes option"
  EVP_EncryptUpdate :: "bytes \<Rightarrow> bytes \<Rightarrow> bytes \<Rightarrow> bytes option"
  EVP_GCM_GET_TAG :: "bytes \<Rightarrow> bytes \<Rightarrow> bytes \<Rightarrow> bytes option"
  EVP_DecryptUpdate :: "bytes \<Rightarrow> bytes \<Rightarrow> bytes \<Rightarrow> bytes option"
  EVP_DecryptFinal :: "bytes \<Rightarrow> bytes \<Rightarrow> bytes \<Rightarrow> bytes \<Rightarrow> bool"
  heap_junk :: "nat \<Rightarrow> char"

definition malloc :: "env \<Rightarrow> nat \<Rightarrow> bytes" where
  "malloc E n = map (heap_junk E) [0..<n]"

subsection \<open>The rows in memory\<close>

text \<open>
  \<open>Lines\<close> is the C struct \<open>{ char **rows; size_t len, cap; }\<close>. The model keeps
  \<open>rows[0..len)\<close> as a list; \<open>cap\<close> only says how much room \<open>realloc\<close> has reserved.
  \<open>lines_push\<close> stores a copy of the line behind the last row.
\<close>

type_synonym Lines = "string list"

definition lines_push :: "Lines \<Rightarrow> string \<Rightarrow> Lines" where
  "lines_push L line = L @ [line]"

subsection \<open>The plaintext blob\<close>

definition hdr :: string where
  "hdr = ''# AES_VAULT (authenticated)'' @ [LF]"

text \<open>The copy loop of \<open>serialize\<close>: each row, then a newline.\<close>

primrec serialize_rows :: "Lines \<Rightarrow> bytes" where
  "serialize_rows [] = []"
| "serialize_rows (r # rs) = r @ [LF] @ serialize_rows rs"

text \<open>\<open>serialize\<close> returns the buffer (without the NUL it also stores) and sets \<open>*outlen\<close>.\<close>

definition serialize :: "Lines \<Rightarrow> bytes" where
  "serialize L = hdr @ serialize_rows L"

text \<open>
  The loop of \<open>parse_lines\<close> over what \<open>strtok_r\<close> has left to scan. \<open>tok[0]\<close> of a token is
  its first byte (the terminator when the token is empty).
\<close>

function parse_loop :: "string \<Rightarrow> Lines \<Rightarrow> Lines" where
  "parse_loop s L =
     (case strtok_r s [LF] of
        None \<Rightarrow> L
      | Some (tok, rest) \<Rightarrow>
          if (case tok of [] \<Rightarrow> False | c # _ \<Rightarrow> c = CHR ''#'') then parse_loop rest L
          else if tok \<noteq> [] then parse_loop rest (lines_push L tok)
          else parse_loop rest L)"
  by pat_completeness auto
termination
proof -
  have shorter: "length rest < length s"
    if a: "strtok_r s delim = Some (tok, rest)" for s delim tok rest
  proof -
    define s' where "s' = dropWhile (\<lambda>c. c \<in> set delim) s"
    from a have ne: "s' \<noteq> []" and r: "rest = drop 1 (dropWhile (\<lambda>c. c \<notin> set delim) s')"
      by (auto simp: strtok_r_def s'_def Let_def split: if_splits)
    have "length rest \<le> length s' - 1"
      unfolding r by (simp add: length_dropWhile_le diff_le_mono)
    moreover have "length s' \<le> length s"
      unfolding s'_def by (rule length_dropWhile_le)
    moreover from ne have "0 < length s'" by simp
    ultimately show ?thesis by linarith
  qed
  show ?thesis
    by (relation "measure (\<lambda>(s, L). length s)") (auto dest: shorter)
qed

declare parse_loop.simps [simp del]

definition parse_lines :: "bytes \<Rightarrow> Lines" where
  "parse_lines plain = parse_loop (c_str plain) []"

subsection \<open>Building and splitting a row\<close>

text \<open>
  \<open>snprintf(line, sizeof line, "%s\t%s\t%s", svc, usr, pwd)\<close> in \<open>cmd_add\<close>: at most
  \<open>MAX_LINE - 1\<close> bytes of the joined text are stored, then the terminator.
\<close>

definition add_line :: "string \<Rightarrow> string \<Rightarrow> string \<Rightarrow> string" where
  "add_line svc usr pwd = take (MAX_LINE - 1) (svc @ [TAB] @ usr @ [TAB] @ pwd)"

text \<open>
  The body of the loop of \<open>cmd_show\<close>: the row is copied into \<open>buf[MAX_LINE]\<close> with
  \<open>strncpy\<close>, the last byte of \<open>buf\<close> is set to NUL, and \<open>strtok\<close> is called three times on
  tab. The result is \<open>None\<close> when one of the three pointers is \<open>NULL\<close>.
\<close>

definition show_fields :: "string \<Rightarrow> (string \<times> string \<times> string) option" where
  "show_fields row =
     (let buf = c_str (take (MAX_LINE - 1) row) in
      case strtok_r buf [TAB] of
        None \<Rightarrow> None
      | Some (svc, r1) \<Rightarrow>
          (case strtok_r r1 [TAB] of
             None \<Rightarrow> None
           | Some (usr, r2) \<Rightarrow>
               (case strtok_r r2 [TAB] of
                  None \<Rightarrow> None
                | Some (pwd, r3) \<Rightarrow> Some (svc, usr, pwd))))"

text \<open>The search of \<open>cmd_show\<close>: the first row with three fields whose first is the query.\<close>

fun show_loop :: "Lines \<Rightarrow> string \<Rightarrow> (string \<times> string \<times> string) option" where
  "show_loop [] svc_q = None"
| "show_loop (row # rows) svc_q =
     (case show_fields row of
        Some (svc, usr, pwd) \<Rightarrow>
          if svc = svc_q then Some (svc, usr, pwd) else show_loop rows svc_q
      | None \<Rightarrow> show_loop rows svc_q)"

subsection \<open>crypto.c\<close>

text \<open>
  \<open>kdf_pbkdf2_sha256\<close>: \<open>-1\<close> (here \<open>None\<close>) when the requested length is 0 or OpenSSL
  fails, else the caller's key buffer as written; the pointers it also checks are never
  \<open>NULL\<close> at its two call sites.
\<close>

definition kdf_pbkdf2_sha256 ::
  "env \<Rightarrow> string \<Rightarrow> bytes \<Rightarrow> 32 word \<Rightarrow> bytes \<Rightarrow> nat \<Rightarrow> bytes option" where
  "kdf_pbkdf2_sha256 E password salt iters out_key out_key_len =
     (if out_key_len = 0 then None
      else (case PKCS5_PBKDF2_HMAC E password salt iters out_key_len of
              None \<Rightarrow> None
            | Some k \<Rightarrow> Some (buf_write out_key k)))"

text \<open>
  \<open>aes256gcm_encrypt\<close> with no associated data: the buffers \<open>ct\<close> and \<open>tag\<close> are the
  caller's; the result is \<open>None\<close> for \<open>-1\<close>, else the two buffers as written.
\<close>

definition aes256gcm_encrypt ::
  "env \<Rightarrow> bytes \<Rightarrow> bytes \<Rightarrow> bytes \<Rightarrow> bytes \<Rightarrow> bytes \<Rightarrow> (bytes \<times> bytes) option" where
  "aes256gcm_encrypt E key nonce pt ct tag =
     (case EVP_EncryptUpdate E key nonce pt of
        None \<Rightarrow> None
      | Some c \<Rightarrow>
          (case EVP_GCM_GET_TAG E key nonce pt of
             None \<Rightarrow> None
           | Some t \<Rightarrow> Some (buf_write ct c, buf_write tag t)))"

text \<open>
  \<open>aes256gcm_decrypt\<close> with no associated data. The calls come in the order of the
  source: \<open>EVP_DecryptUpdate\<close> writes into \<open>out_pt\<close> first, then the expected tag is set
  and \<open>EVP_DecryptFinal_ex\<close> compares it. The result is the return code and \<open>out_pt\<close> as
  the call leaves it.
\<close>

definition aes256gcm_decrypt ::
  "env \<Rightarrow> bytes \<Rightarrow> bytes \<Rightarrow> bytes \<Rightarrow> bytes \<Rightarrow> bytes \<Rightarrow> int \<times> bytes" where
  "aes256gcm_decrypt E key nonce ct tag out_pt =
     (case EVP_DecryptUpdate E key nonce ct of
        None \<Rightarrow> (- 1, out_pt)
      | Some pt \<Rightarrow>
          (let out_pt' = buf_write out_pt pt in
           if EVP_DecryptFinal E key nonce ct tag then (0, out_pt') else (- 1, out_pt')))"

subsection \<open>The world a command runs in\<close>

text \<open>
  \<^item> \<open>files\<close>: the contents of the files of the working directory, by name.
  \<^item> \<open>entropy\<close>: the bytes \<open>RAND_bytes\<close> will deliver; it fails when too few are left.
  \<^item> \<open>tty\<close>: what the calls of \<open>prompt_hidden\<close> will return, in order (\<open>None\<close> for
    \<open>NULL\<close>); the prompt itself is outside the vault's core.
  \<^item> \<open>fault\<close>: the I/O failure the next save meets, if any. The number is how many
    bytes had reached the temporary file when the call failed.
\<close>

datatype io_fault = NoFault | FopenFails | FwriteFails nat | FcloseFails nat | RenameFails

record world =
  files :: "string \<rightharpoonup> bytes"
  entropy :: bytes
  tty :: "string option list"
  fault :: io_fault

text \<open>
  Every way a command ends with exit status 1: \<open>die\<close> (\<open>perror\<close>, \<open>exit(1)\<close>), the
  \<open>exit(1)\<close> calls of \<open>load_vault\<close> and \<open>save_vault\<close>, and the \<open>return 1\<close> of the commands.
  \<open>OutOfBounds\<close> is not an exit: it marks a read past the end of the file buffer, which
  in C has no defined behaviour.
\<close>

datatype failure =
    Die string
  | NoVault
  | BadMagic
  | TooSmall
  | CtOverrun
  | KdfFailed
  | EncryptFailed
  | AuthFailed
  | RefuseOverwrite
  | PasswordInputFailed
  | PasswordMismatch
  | Usage
  | BadField
  | NoEntry string
  | OutOfBounds

text \<open>The spec's \<open>FormatError\<close>: bad magic or a length that does not fit the file.\<close>

fun is_FormatError :: "failure \<Rightarrow> bool" where
  "is_FormatError BadMagic = True"
| "is_FormatError TooSmall = True"
| "is_FormatError CtOverrun = True"
| "is_FormatError _ = False"

definition exit_status :: "failure + 'a \<Rightarrow> int" where
  "exit_status r = (case r of Inl e \<Rightarrow> 1 | Inr x \<Rightarrow> 0)"

definition prompt_hidden :: "world \<Rightarrow> string option \<times> world" where
  "prompt_hidden w =
     (case tty w of
        [] \<Rightarrow> (None, w)
      | r # rs \<Rightarrow> (r, w\<lparr>tty := rs\<rparr>))"

definition crypto_rand :: "nat \<Rightarrow> world \<Rightarrow> bytes option \<times> world" where
  "crypto_rand n w =
     (if n \<le> length (entropy w)
      then (Some (take n (entropy w)), w\<lparr>entropy := drop n (entropy w)\<rparr>)
      else (None, w))"

definition file_exists :: "string \<Rightarrow> world \<Rightarrow> bool" where
  "file_exists p w = (files w p \<noteq> None)"

text \<open>
  \<open>read_all\<close>: \<open>NULL\<close> when the file cannot be opened, else its bytes. (Its \<open>die\<close>
  calls, on a failing \<open>fseek\<close>, \<open>ftell\<close>, \<open>malloc\<close> or \<open>fread\<close>, end the process before
  any byte is decoded and are left out.)
\<close>

definition read_all :: "string \<Rightarrow> world \<Rightarrow> bytes option" where
  "read_all path w = files w path"

text \<open>\<open>rename(old, new)\<close>: one step; \<open>new\<close> gets the file, \<open>old\<close> is gone.\<close>

definition rename_file :: "string \<Rightarrow> string \<Rightarrow> (string \<rightharpoonup> bytes) \<Rightarrow> (string \<rightharpoonup> bytes)" where
  "rename_file old new fs = (if old = new then fs else (fs(new := fs old))(old := None))"

text \<open>
  \<open>write_all_atomic\<close>: the temporary name is \<open>path\<close> with \<open>.tmp\<close> appended, cut to the 255
  bytes of \<open>tmp[256]\<close>; \<open>fopen(tmp, "wb")\<close> creates or empties it; \<open>fwrite\<close> and \<open>fclose\<close>
  bring the data to it; \<open>rename\<close> puts it in place. Each failure is a \<open>die\<close>. (\<open>chmod\<close>
  follows the rename, its result is ignored and it does not touch the contents.)
\<close>

definition write_all_atomic :: "string \<Rightarrow> bytes \<Rightarrow> nat \<Rightarrow> world \<Rightarrow> (failure + unit) \<times> world" where
  "write_all_atomic path data n w =
     (let tmp = take 255 (path @ ''.tmp'') in
      if fault w = FopenFails then (Inl (Die ''fopen tmp''), w)
      else
        let w1 = w\<lparr>files := (files w)(tmp \<mapsto> [])\<rparr> in
        case fault w of
          FwriteFails k \<Rightarrow>
            (Inl (Die ''fwrite''), w1\<lparr>files := (files w1)(tmp \<mapsto> take k (take n data))\<rparr>)
        | FcloseFails k \<Rightarrow>
            (Inl (Die ''fclose''), w1\<lparr>files := (files w1)(tmp \<mapsto> take k (take n data))\<rparr>)
        | _ \<Rightarrow>
            let w2 = w1\<lparr>files := (files w1)(tmp \<mapsto> take n data)\<rparr> in
            if fault w = RenameFails then (Inl (Die ''rename''), w2)
            else (Inr (), w2\<lparr>files := rename_file tmp path (files w2)\<rparr>))"

subsection \<open>The container\<close>

text \<open>
  The file that \<open>save_vault\<close> assembles, as a function of its parts:
  magic, iterations, salt, nonce, ciphertext length, ciphertext, tag. \<open>out\<close> is a fresh
  block of \<open>outsz\<close> bytes filled by seven \<open>memcpy\<close> calls at a running offset.
\<close>

definition memcpy :: "bytes \<Rightarrow> nat \<Rightarrow> bytes \<Rightarrow> nat \<Rightarrow> bytes" where
  "memcpy dst off src n = take off dst @ take n src @ drop (off + n) dst"

definition assemble ::
  "env \<Rightarrow> 32 word \<Rightarrow> bytes \<Rightarrow> bytes \<Rightarrow> 32 word \<Rightarrow> bytes \<Rightarrow> bytes \<Rightarrow> bytes" where
  "assemble E iters_le salt nonce ct_len_le ct tag =
     (let outsz = MAGIC_LEN + 4 + SALT_LEN + NONCE_LEN + 4 + unat ct_len_le + TAG_LEN;
          out = malloc E outsz;
          off = 0;
          out = memcpy out off MAGIC MAGIC_LEN; off = off + MAGIC_LEN;
          out = memcpy out off (store_u32 (host_endian E) iters_le) 4; off = off + 4;
          out = memcpy out off salt SALT_LEN; off = off + SALT_LEN;
          out = memcpy out off nonce NONCE_LEN; off = off + NONCE_LEN;
          out = memcpy out off (store_u32 (host_endian E) ct_len_le) 4; off = off + 4;
          out = memcpy out off ct (unat ct_len_le); off = off + unat ct_len_le;
          out = memcpy out off tag TAG_LEN
      in out)"

text \<open>
  A checked read of \<open>n\<close> bytes at \<open>off\<close>: \<open>None\<close> when the range leaves the buffer. The
  decoder below turns \<open>None\<close> into \<open>OutOfBounds\<close>.
\<close>

definition slice :: "bytes \<Rightarrow> nat \<Rightarrow> nat \<Rightarrow> bytes option" where
  "slice buf off n = (if off + n \<le> length buf then Some (take n (drop off buf)) else None)"

record container =
  c_iters :: "32 word"
  c_salt :: bytes
  c_nonce :: bytes
  c_ct_len :: "32 word"
  c_ct :: bytes
  c_tag :: bytes

text \<open>
  The decoding steps of \<open>load_vault\<close>, from the magic test to the copy of the tag, over
  the bytes \<open>read_all\<close> returned; \<open>sz\<close> is their number.
\<close>

definition decode_container :: "endian \<Rightarrow> bytes \<Rightarrow> failure + container" where
  "decode_container host buf =
     (let sz = length buf in
      if sz < MAGIC_LEN then Inl BadMagic
      else (case slice buf 0 MAGIC_LEN of
        None \<Rightarrow> Inl OutOfBounds
      | Some m \<Rightarrow>
      if m \<noteq> MAGIC then Inl BadMagic
      else
        (let off = MAGIC_LEN in
        if sz < off + 4 + SALT_LEN + NONCE_LEN + 4 + TAG_LEN then Inl TooSmall
        else (case slice buf off 4 of
          None \<Rightarrow> Inl OutOfBounds
        | Some iters_b \<Rightarrow>
        (let off = off + 4 in
        (case slice buf off SALT_LEN of
          None \<Rightarrow> Inl OutOfBounds
        | Some salt \<Rightarrow>
        (let off = off + SALT_LEN in
        (case slice buf off NONCE_LEN of
          None \<Rightarrow> Inl OutOfBounds
        | Some nonce \<Rightarrow>
        (let off = off + NONCE_LEN in
        (case slice buf off 4 of
          None \<Rightarrow> Inl OutOfBounds
        | Some ct_len_b \<Rightarrow>
        (let off = off + 4;
             ct_len = load_u32 host ct_len_b in
        if sz < size_t_add (size_t_add off (unat ct_len)) TAG_LEN then Inl CtOverrun
        else (case slice buf off (unat ct_len) of
          None \<Rightarrow> Inl OutOfBounds
        | Some ct \<Rightarrow>
        (let off = size_t_add off (unat ct_len) in
        (case slice buf off TAG_LEN of
          None \<Rightarrow> Inl OutOfBounds
        | Some tag \<Rightarrow>
            Inr \<lparr>c_iters = load_u32 host iters_b, c_salt = salt, c_nonce = nonce,
                 c_ct_len = ct_len, c_ct = ct, c_tag = tag\<rparr>))))))))))))))"

subsection \<open>Saving and loading\<close>

definition save_vault :: "env \<Rightarrow> Lines \<Rightarrow> string \<Rightarrow> world \<Rightarrow> (failure + unit) \<times> world" where
  "save_vault E L password w =
     (case crypto_rand SALT_LEN w of
        (None, w1) \<Rightarrow> (Inl (Die ''RAND(salt)''), w1)
      | (Some salt, w1) \<Rightarrow>
     (case crypto_rand NONCE_LEN w1 of
        (None, w2) \<Rightarrow> (Inl (Die ''RAND(nonce)''), w2)
      | (Some nonce, w2) \<Rightarrow>
     (let plain = serialize L; plen = length plain in
     (case kdf_pbkdf2_sha256 E password salt PBKDF2_ITERS (malloc E KEY_LEN) KEY_LEN of
        None \<Rightarrow> (Inl KdfFailed, w2)
      | Some key \<Rightarrow>
     (case aes256gcm_encrypt E key nonce plain (malloc E plen) (malloc E TAG_LEN) of
        None \<Rightarrow> (Inl EncryptFailed, w2)
      | Some (ct, tag) \<Rightarrow>
     (let iters_le = PBKDF2_ITERS;
          ct_len_le = (of_nat plen :: 32 word);
          outsz = MAGIC_LEN + 4 + SALT_LEN + NONCE_LEN + 4 + unat ct_len_le + TAG_LEN;
          out = assemble E iters_le salt nonce ct_len_le ct tag
      in write_all_atomic VAULT_FILE out outsz w2))))))"

text \<open>
  \<open>load_vault\<close> returns its outcome and, beside it, what the block \<open>plain\<close> holds when
  the function is left (empty when it was never allocated): the code zeroes it on both
  ways out.
\<close>

definition load_vault :: "env \<Rightarrow> string \<Rightarrow> world \<Rightarrow> (failure + Lines) \<times> bytes" where
  "load_vault E password w =
     (case read_all VAULT_FILE w of
        None \<Rightarrow> (Inl NoVault, [])
      | Some buf \<Rightarrow>
     (case decode_container (host_endian E) buf of
        Inl e \<Rightarrow> (Inl e, [])
      | Inr c \<Rightarrow>
     (case kdf_pbkdf2_sha256 E password (c_salt c) (c_iters c) (malloc E KEY_LEN) KEY_LEN of
        None \<Rightarrow> (Inl KdfFailed, [])
      | Some key \<Rightarrow>
     (let ct_len = unat (c_ct_len c);
          plain = malloc E (ct_len + 1)
      in
     (case aes256gcm_decrypt E key (c_nonce c) (c_ct c) (c_tag c) plain of
        (rc, plain) \<Rightarrow>
          if rc \<noteq> 0 then (Inl AuthFailed, secure_bzero plain ct_len)
          else
            (let plain = plain[ct_len := NUL];
                 L = parse_lines plain
             in (Inr L, secure_bzero plain ct_len)))))))"

subsection \<open>The commands\<close>

text \<open>A command returns what it printed on standard output, or how it failed.\<close>

definition cmd_init :: "env \<Rightarrow> world \<Rightarrow> (failure + string) \<times> world" where
  "cmd_init E w =
     (if file_exists VAULT_FILE w then (Inl RefuseOverwrite, w)
      else
        (case prompt_hidden w of (pw1, w1) \<Rightarrow>
        (case prompt_hidden w1 of (pw2, w2) \<Rightarrow>
        (case (pw1, pw2) of
           (Some p1, Some p2) \<Rightarrow>
             if p1 \<noteq> p2 then (Inl PasswordMismatch, w2)
             else
               (case save_vault E [] p1 w2 of
                  (Inl e, w3) \<Rightarrow> (Inl e, w3)
                | (Inr u, w3) \<Rightarrow>
                    (Inr (''Initialized AES vault: '' @ VAULT_FILE @ [LF]), w3))
         | _ \<Rightarrow> (Inl PasswordInputFailed, w2)))))"

definition cmd_add ::
  "env \<Rightarrow> string option \<Rightarrow> string option \<Rightarrow> string option \<Rightarrow> world \<Rightarrow> (failure + string) \<times> world" where
  "cmd_add E svc usr pwd w =
     (case (svc, usr, pwd) of
        (Some svc, Some usr, Some pwd) \<Rightarrow>
          if TAB \<in> set svc \<or> TAB \<in> set usr \<or> TAB \<in> set pwd \<or>
             LF \<in> set svc \<or> LF \<in> set usr \<or> LF \<in> set pwd
          then (Inl BadField, w)
          else
            (case prompt_hidden w of
               (None, w1) \<Rightarrow> (Inl PasswordInputFailed, w1)
             | (Some pw, w1) \<Rightarrow>
            (case fst (load_vault E pw w1) of
               Inl e \<Rightarrow> (Inl e, w1)
             | Inr L \<Rightarrow>
            (let line = add_line svc usr pwd;
                 L = lines_push L line
             in
            (case save_vault E L pw w1 of
               (Inl e, w2) \<Rightarrow> (Inl e, w2)
             | (Inr u, w2) \<Rightarrow> (Inr (''Added entry for service: '' @ svc @ [LF]), w2)))))
      | _ \<Rightarrow> (Inl Usage, w))"

text \<open>The loop of \<open>cmd_list\<close>: the first tab-separated token of each row, if it has one.\<close>

fun list_loop :: "Lines \<Rightarrow> string" where
  "list_loop [] = []"
| "list_loop (row # rows) =
     (case strtok_r (c_str (take (MAX_LINE - 1) row)) [TAB] of
        None \<Rightarrow> list_loop rows
      | Some (svc, r) \<Rightarrow> svc @ [LF] @ list_loop rows)"

definition cmd_list :: "env \<Rightarrow> world \<Rightarrow> (failure + string) \<times> world" where
  "cmd_list E w =
     (case prompt_hidden w of
        (None, w1) \<Rightarrow> (Inl PasswordInputFailed, w1)
      | (Some pw, w1) \<Rightarrow>
     (case fst (load_vault E pw w1) of
        Inl e \<Rightarrow> (Inl e, w1)
      | Inr L \<Rightarrow> (Inr (list_loop L), w1)))"

definition show_output :: "string \<Rightarrow> string \<Rightarrow> string \<Rightarrow> string" where
  "show_output svc usr pwd =
     ''service : '' @ svc @ [LF] @ ''user    : '' @ usr @ [LF] @ ''pass    : '' @ pwd @ [LF]"

definition cmd_show :: "env \<Rightarrow> string option \<Rightarrow> world \<Rightarrow> (failure + string) \<times> world" where
  "cmd_show E svc_q w =
     (case svc_q of
        None \<Rightarrow> (Inl Usage, w)
      | Some q \<Rightarrow>
     (case prompt_hidden w of
        (None, w1) \<Rightarrow> (Inl PasswordInputFailed, w1)
      | (Some pw, w1) \<Rightarrow>
     (case fst (load_vault E pw w1) of
        Inl e \<Rightarrow> (Inl e, w1)
      | Inr L \<Rightarrow>
     (case show_loop L q of
        Some (svc, usr, pwd) \<Rightarrow> (Inr (show_output svc usr pwd), w1)
      | None \<Rightarrow> (Inl (NoEntry q), w1)))))"

subsection \<open>What is assumed of OpenSSL, and a stand-in to run the model\<close>

text \<open>
  The contract of AES-256-GCM that the vault relies on: the ciphertext is as long as
  the plaintext, the tag has 16 bytes, and decrypting under the same key and nonce
  returns the plaintext and accepts the tag.
\<close>

definition gcm_ok :: "env \<Rightarrow> bool" where
  "gcm_ok E =
     (\<forall>key nonce pt c t.
        EVP_EncryptUpdate E key nonce pt = Some c \<and> EVP_GCM_GET_TAG E key nonce pt = Some t \<longrightarrow>
        length c = length pt \<and> length t = TAG_LEN \<and>
        EVP_DecryptUpdate E key nonce c = Some pt \<and> EVP_DecryptFinal E key nonce c t)"


text \<open>
  A stand-in platform for running the model on concrete inputs. It is no cipher: what
  it calls ciphertext is the plaintext reversed and the tag is the start of the key. It
  meets \<open>gcm_ok\<close>, and a wrong key fails the tag check.
\<close>

definition test_tag :: "bytes \<Rightarrow> bytes" where
  "test_tag key = take 16 (key @ replicate 16 NUL)"

definition test_env :: "endian \<Rightarrow> env" where
  "test_env host =
     \<lparr>host_endian = host,
      PKCS5_PBKDF2_HMAC = (\<lambda>password salt iters n. Some (take n (password @ salt @ replicate n NUL))),
      EVP_EncryptUpdate = (\<lambda>key nonce pt. Some (rev pt)),
      EVP_GCM_GET_TAG = (\<lambda>key nonce pt. Some (test_tag key)),
      EVP_DecryptUpdate = (\<lambda>key nonce ct. Some (rev ct)),
      EVP_DecryptFinal = (\<lambda>key nonce ct tag. tag = test_tag key),
      heap_junk = (\<lambda>i. CHR 0xAA)\<rparr>"

definition test_world :: world where
  "test_world =
     \<lparr>files = Map.empty,
      entropy = replicate 56 (CHR 0x11),
      tty = [Some ''Secret1'', Some ''Secret1'', Some ''Secret1'', Some ''Secret1''],
      fault = NoFault\<rparr>"

text \<open>The same world with a vault already on disk and a given I/O fault ahead.\<close>

definition old_world :: "io_fault \<Rightarrow> world" where
  "old_world f = test_world\<lparr>files := [VAULT_FILE \<mapsto> ''old vault''], fault := f\<rparr>"

text \<open>The \<open>n\<close> bytes at offset \<open>off\<close> of the vault file, if it has them.\<close>

definition vault_bytes :: "world \<Rightarrow> nat \<Rightarrow> nat \<Rightarrow> bytes option" where
  "vault_bytes w off n = (case read_all VAULT_FILE w of None \<Rightarrow> None | Some c \<Rightarrow> slice c off n)"

text \<open>Two rows as \<open>add\<close> builds them, the first from empty user and password.\<close>

definition orphan_rows :: Lines where
  "orphan_rows = [add_line ''orphan'' [] [], add_line ''github'' ''alice'' ''hunter2'']"

text \<open>A well-formed container whose tag does not match, and the world that holds it.\<close>

definition tampered_file :: bytes where
  "tampered_file =
     MAGIC @ store_u32 LittleEndian PBKDF2_ITERS @ replicate 16 (CHR 0x11) @ replicate 12 (CHR 0x22) @
     store_u32 LittleEndian 3 @ ''cba'' @ ''not the real tag''"

definition tampered_world :: world where
  "tampered_world = test_world\<lparr>files := [VAULT_FILE \<mapsto> tampered_file]\<rparr>"


subsection \<open>The round trip, and the parser as the spec words it\<close>

text \<open>
  A record is a triple (service, user, password). The only place that turns one into a
  row is \<open>cmd_add\<close>; the only place that turns a row back into fields is the loop
  body of \<open>cmd_show\<close>.
\<close>

type_synonym record3 = "string \<times> string \<times> string"

definition rows_of_records :: "record3 list \<Rightarrow> Lines" where
  "rows_of_records R = map (\<lambda>(svc, usr, pwd). add_line svc usr pwd) R"

text \<open>
  Serialize the rows, encrypt the blob, decrypt the result under the same key and
  nonce into a block one byte longer, terminate it and parse it, as \<open>save_vault\<close> and
  \<open>load_vault\<close> do around the container. \<open>None\<close> when either cipher call fails.
\<close>

definition roundtrip_rows :: "env \<Rightarrow> bytes \<Rightarrow> bytes \<Rightarrow> Lines \<Rightarrow> Lines option" where
  "roundtrip_rows E key nonce L =
     (let plain = serialize L; plen = length plain in
      case aes256gcm_encrypt E key nonce plain (malloc E plen) (malloc E TAG_LEN) of
        None \<Rightarrow> None
      | Some (ct, tag) \<Rightarrow>
          (case aes256gcm_decrypt E key nonce ct tag (malloc E (plen + 1)) of
             (rc, out) \<Rightarrow>
               if rc \<noteq> 0 then None else Some (parse_lines (out[plen := NUL]))))"

text \<open>What a field must be for a record to survive the round trip.\<close>

definition field_ok :: "string \<Rightarrow> bool" where
  "field_ok f = (f \<noteq> [] \<and> TAB \<notin> set f \<and> LF \<notin> set f \<and> NUL \<notin> set f)"

fun record_ok :: "record3 \<Rightarrow> bool" where
  "record_ok (svc, usr, pwd) =
     (field_ok svc \<and> field_ok usr \<and> field_ok pwd \<and> take 1 svc \<noteq> ''#'' \<and>
      length svc + length usr + length pwd + 2 < MAX_LINE)"

text \<open>
  The parser in the spec's words: split on newline, drop the lines that begin with the
  comment marker (the header is one), drop the empty lines.
\<close>

fun split_on :: "char \<Rightarrow> string \<Rightarrow> string list" where
  "split_on d [] = [[]]"
| "split_on d (c # cs) =
     (if c = d then [] # split_on d cs
      else (case split_on d cs of
              [] \<Rightarrow> [[c]]
            | l # ls \<Rightarrow> (c # l) # ls))"

definition keep_line :: "string \<Rightarrow> bool" where
  "keep_line l = (l \<noteq> [] \<and> take 1 l \<noteq> ''#'')"

definition parse_spec :: "bytes \<Rightarrow> Lines" where
  "parse_spec plain = filter keep_line (split_on LF (c_str plain))"

text \<open>A row that comes back from the blob as it went in.\<close>

definition row_ok :: "string \<Rightarrow> bool" where
  "row_ok r = (keep_line r \<and> LF \<notin> set r \<and> NUL \<notin> set r)"

section \<open>Properties\<close>

subsection \<open>Arithmetic of the format\<close>

lemma unat32_bound: "unat (x :: 32 word) < 4294967296"
  using unsigned_less [of x, where ?'a = nat] by simp

lemma length_le_bytes32: "length (le_bytes32 x) = 4"
  by (simp add: le_bytes32_def Let_def)

lemma length_store_u32: "length (store_u32 host x) = 4"
  by (cases host) (simp_all add: store_u32_def length_le_bytes32)

lemma le_word32_le_bytes32: "le_word32 (le_bytes32 x) = x"
proof -
  define n where "n = unat x"
  have n: "n < 4294967296" unfolding n_def by (rule unat32_bound)
  have d2: "n div 65536 = n div 256 div 256" and d3: "n div 16777216 = n div 256 div 256 div 256"
    by (simp_all add: div_mult2_eq [symmetric])
  have top: "n div 256 div 256 div 256 < 256"
    using n by (simp add: div_mult2_eq [symmetric] less_mult_imp_div_less)
  have "n mod 256 + 256 * (n div 256 mod 256 + 256 * (n div 256 div 256 mod 256
          + 256 * (n div 256 div 256 div 256 mod 256))) = n"
    using top by (simp only: mod_less mod_mult_div_eq)
  then have sum: "of_char (char_of n :: char) + 256 * (of_char (char_of (n div 256) :: char)
          + 256 * (of_char (char_of (n div 65536) :: char)
          + 256 * of_char (char_of (n div 16777216) :: char))) = n"
    by (simp only: of_char_of d2 d3)
  have "le_word32 (le_bytes32 x) =
          of_nat (of_char (char_of n :: char) + 256 * (of_char (char_of (n div 256) :: char)
          + 256 * (of_char (char_of (n div 65536) :: char)
          + 256 * of_char (char_of (n div 16777216) :: char))))"
    by (simp only: le_word32_def le_bytes32_def Let_def n_def list.case)
  also have "\<dots> = of_nat n" by (simp only: sum)
  also have "\<dots> = x" by (simp add: n_def)
  finally show ?thesis .
qed

lemma load_store_u32: "load_u32 host (store_u32 host x) = x"
  by (cases host) (simp_all add: load_u32_def store_u32_def le_word32_le_bytes32)


lemma length_malloc: "length (malloc E n) = n"
  by (simp add: malloc_def)

lemma length_MAGIC: "length MAGIC = 6"
  by (simp add: MAGIC_def)

lemma assemble_eq:
  assumes ls: "length salt = SALT_LEN" and ln: "length nonce = NONCE_LEN"
    and lc: "unat ct_len \<le> length ct" and lt: "length tag = TAG_LEN"
  shows "assemble E iters salt nonce ct_len ct tag =
           MAGIC @ store_u32 (host_endian E) iters @ salt @ nonce @
           store_u32 (host_endian E) ct_len @ take (unat ct_len) ct @ tag"
proof -
  define n where "n = unat ct_len"
  define out0 where "out0 = malloc E (MAGIC_LEN + 4 + SALT_LEN + NONCE_LEN + 4 + n + TAG_LEN)"
  define si where "si = store_u32 (host_endian E) iters"
  define sc where "sc = store_u32 (host_endian E) ct_len"
  have l0: "length out0 = 58 + n"
    by (simp add: out0_def length_malloc MAGIC_LEN_def SALT_LEN_def NONCE_LEN_def TAG_LEN_def)
  have lsi: "length si = 4" and lsc: "length sc = 4"
    by (simp_all add: si_def sc_def length_store_u32)
  have ls': "length salt = 16" and ln': "length nonce = 12" and lt': "length tag = 16"
    using ls ln lt by (simp_all add: SALT_LEN_def NONCE_LEN_def TAG_LEN_def)
  have lc': "n \<le> length ct" using lc by (simp add: n_def)
  have 1: "memcpy out0 0 MAGIC MAGIC_LEN = MAGIC @ drop 6 out0"
    by (simp add: memcpy_def length_MAGIC MAGIC_LEN_def)
  have 2: "memcpy (MAGIC @ drop 6 out0) (0 + MAGIC_LEN) si 4 = MAGIC @ si @ drop 10 out0"
    using l0 by (simp add: memcpy_def length_MAGIC MAGIC_LEN_def lsi)
  have 3: "memcpy (MAGIC @ si @ drop 10 out0) (0 + MAGIC_LEN + 4) salt SALT_LEN =
             MAGIC @ si @ salt @ drop 26 out0"
    using l0 by (simp add: memcpy_def length_MAGIC MAGIC_LEN_def SALT_LEN_def lsi ls')
  have 4: "memcpy (MAGIC @ si @ salt @ drop 26 out0) (0 + MAGIC_LEN + 4 + SALT_LEN) nonce NONCE_LEN =
             MAGIC @ si @ salt @ nonce @ drop 38 out0"
    using l0 by (simp add: memcpy_def length_MAGIC MAGIC_LEN_def SALT_LEN_def NONCE_LEN_def lsi ls' ln')
  have 5: "memcpy (MAGIC @ si @ salt @ nonce @ drop 38 out0)
             (0 + MAGIC_LEN + 4 + SALT_LEN + NONCE_LEN) sc 4 =
             MAGIC @ si @ salt @ nonce @ sc @ drop 42 out0"
    using l0
    by (simp add: memcpy_def length_MAGIC MAGIC_LEN_def SALT_LEN_def NONCE_LEN_def lsi lsc ls' ln')
  have 6: "memcpy (MAGIC @ si @ salt @ nonce @ sc @ drop 42 out0)
             (0 + MAGIC_LEN + 4 + SALT_LEN + NONCE_LEN + 4) ct n =
             MAGIC @ si @ salt @ nonce @ sc @ take n ct @ drop (42 + n) out0"
    using l0 lc'
    by (simp add: memcpy_def length_MAGIC MAGIC_LEN_def SALT_LEN_def NONCE_LEN_def lsi lsc ls' ln'
        add.commute)
  have 7: "memcpy (MAGIC @ si @ salt @ nonce @ sc @ take n ct @ drop (42 + n) out0)
             (0 + MAGIC_LEN + 4 + SALT_LEN + NONCE_LEN + 4 + n) tag TAG_LEN =
             MAGIC @ si @ salt @ nonce @ sc @ take n ct @ tag"
    using l0 lc'
    by (simp add: memcpy_def length_MAGIC MAGIC_LEN_def SALT_LEN_def NONCE_LEN_def TAG_LEN_def
        lsi lsc ls' ln' lt' min_absorb2)
  show ?thesis
    unfolding assemble_def Let_def n_def [symmetric] out0_def [symmetric] si_def [symmetric]
      sc_def [symmetric]
    by (simp only: 1 2 3 4 5 6 7)
qed

lemma size_t_add_small: "a + b < 2 ^ 64 \<Longrightarrow> size_t_add a b = a + b"
  by (simp add: size_t_add_def unat_of_nat flip: of_nat_add)

lemma size_t_add_u32:
  "size_t_add 42 (unat (x :: 32 word)) = 42 + unat x"
  "size_t_add (42 + unat x) TAG_LEN = 58 + unat x"
  using unat32_bound [of x] by (simp_all add: size_t_add_small TAG_LEN_def)

lemma decode_header:
  assumes ls: "length salt = SALT_LEN" and ln: "length nonce = NONCE_LEN"
  shows "decode_container host
           (MAGIC @ store_u32 host iters @ salt @ nonce @ store_u32 host ct_len @ X) =
         (if length X < TAG_LEN then Inl TooSmall
          else if length X < unat ct_len + TAG_LEN then Inl CtOverrun
          else Inr \<lparr>c_iters = iters, c_salt = salt, c_nonce = nonce, c_ct_len = ct_len,
                    c_ct = take (unat ct_len) X, c_tag = take TAG_LEN (drop (unat ct_len) X)\<rparr>)"
proof -
  define buf where "buf = MAGIC @ store_u32 host iters @ salt @ nonce @ store_u32 host ct_len @ X"
  have len: "length buf = 42 + length X"
    using ls ln by (simp add: buf_def length_MAGIC length_store_u32 SALT_LEN_def NONCE_LEN_def)
  have s1: "slice buf 0 MAGIC_LEN = Some MAGIC"
    by (simp add: slice_def buf_def length_MAGIC MAGIC_LEN_def)
  have s2: "slice buf MAGIC_LEN 4 = Some (store_u32 host iters)"
    by (simp add: slice_def buf_def length_MAGIC MAGIC_LEN_def length_store_u32)
  have s3: "slice buf (MAGIC_LEN + 4) SALT_LEN = Some salt"
    using ls by (simp add: slice_def buf_def length_MAGIC MAGIC_LEN_def length_store_u32)
  have s4: "slice buf (MAGIC_LEN + 4 + SALT_LEN) NONCE_LEN = Some nonce"
    using ls ln by (simp add: slice_def buf_def length_MAGIC MAGIC_LEN_def length_store_u32)
  have s5: "slice buf (MAGIC_LEN + 4 + SALT_LEN + NONCE_LEN) 4 = Some (store_u32 host ct_len)"
    using ls ln by (simp add: slice_def buf_def length_MAGIC MAGIC_LEN_def length_store_u32)
  have off: "MAGIC_LEN + 4 + SALT_LEN + NONCE_LEN + 4 = 42"
    by (simp add: MAGIC_LEN_def SALT_LEN_def NONCE_LEN_def)
  have wrap: "size_t_add 42 (unat ct_len) = 42 + unat ct_len"
    "size_t_add (42 + unat ct_len) TAG_LEN = 42 + unat ct_len + TAG_LEN"
    using size_t_add_u32 [of ct_len] by (simp_all add: TAG_LEN_def)
  have s6: "slice buf 42 n = (if n \<le> length X then Some (take n X) else None)" for n
    using ls ln by (simp add: slice_def buf_def length_MAGIC length_store_u32 SALT_LEN_def NONCE_LEN_def)
  have s7: "slice buf (42 + unat ct_len) TAG_LEN =
              (if unat ct_len + TAG_LEN \<le> length X then Some (take TAG_LEN (drop (unat ct_len) X)) else None)"
    using ls ln by (simp add: slice_def buf_def length_MAGIC length_store_u32 SALT_LEN_def NONCE_LEN_def add.commute)
  show ?thesis
    unfolding buf_def [symmetric] decode_container_def Let_def
    by (simp add: s1 s2 s3 s4 s5 off wrap s6 s7 len load_store_u32) (simp add: MAGIC_LEN_def TAG_LEN_def)
qed


lemma slice_in: "off + n \<le> length buf \<Longrightarrow> slice buf off n = Some (take n (drop off buf))"
  by (simp add: slice_def)


subsection \<open>Decoding stays inside the buffer\<close>

lemma decode_container_outcomes:
  "decode_container host buf = Inl BadMagic \<or> decode_container host buf = Inl TooSmall \<or>
   decode_container host buf = Inl CtOverrun \<or> (\<exists>d. decode_container host buf = Inr d)"
proof (cases "length buf < 6")
  case True
  then show ?thesis by (simp add: decode_container_def MAGIC_LEN_def)
next
  case ge6: False
  then have s1: "slice buf 0 MAGIC_LEN = Some (take 6 buf)"
    by (simp add: slice_in MAGIC_LEN_def)
  have off: "MAGIC_LEN + 4 + SALT_LEN + NONCE_LEN + 4 = 42"
    "MAGIC_LEN + 4 + SALT_LEN + NONCE_LEN + 4 + TAG_LEN = 58"
    by (simp_all add: MAGIC_LEN_def SALT_LEN_def NONCE_LEN_def TAG_LEN_def)
  show ?thesis
  proof (cases "take 6 buf = MAGIC \<and> 58 \<le> length buf")
    case False
    then consider "take 6 buf \<noteq> MAGIC" | "take 6 buf = MAGIC" "length buf < 58" by linarith
    then show ?thesis
    proof cases
      case 1
      with ge6 s1 show ?thesis by (simp add: decode_container_def Let_def MAGIC_LEN_def)
    next
      case 2
      with ge6 s1 off show ?thesis by (simp add: decode_container_def Let_def)
    qed
  next
    case True
    define n where "n = unat (load_u32 host (take 4 (drop 38 buf)))"
    from True have s2: "slice buf MAGIC_LEN 4 = Some (take 4 (drop 6 buf))"
      and s3: "slice buf (MAGIC_LEN + 4) SALT_LEN = Some (take 16 (drop 10 buf))"
      and s4: "slice buf (MAGIC_LEN + 4 + SALT_LEN) NONCE_LEN = Some (take 12 (drop 26 buf))"
      and s5: "slice buf (MAGIC_LEN + 4 + SALT_LEN + NONCE_LEN) 4 = Some (take 4 (drop 38 buf))"
      by (simp_all add: slice_in MAGIC_LEN_def SALT_LEN_def NONCE_LEN_def)
    have wrap: "size_t_add 42 n = 42 + n" "size_t_add (42 + n) TAG_LEN = 58 + n"
      unfolding n_def by (rule size_t_add_u32)+
    show ?thesis
    proof (cases "length buf < 58 + n")
      case over: True
      with True s1 s2 s3 s4 s5 show ?thesis
        by (simp add: decode_container_def Let_def off wrap n_def [symmetric])
    next
      case fits: False
      then have s6: "slice buf 42 n = Some (take n (drop 42 buf))"
        and s7: "slice buf (42 + n) TAG_LEN = Some (take 16 (drop (42 + n) buf))"
        by (simp_all add: slice_in TAG_LEN_def)
      from True fits s1 s2 s3 s4 s5 s6 s7 show ?thesis
        by (simp add: decode_container_def Let_def off wrap n_def [symmetric])
    qed
  qed
qed


lemma decode_container_InlD: "decode_container host buf = Inl e \<Longrightarrow> is_FormatError e"
  using decode_container_outcomes [of host buf] by auto

subsection \<open>What a save leaves on disk\<close>

lemma crypto_rand_SomeD:
  "crypto_rand n w = (Some r, w') \<Longrightarrow>
     r = take n (entropy w) \<and> length r = n \<and> w' = w\<lparr>entropy := drop n (entropy w)\<rparr>"
  by (auto simp: crypto_rand_def split: if_splits)

lemma length_buf_write: "length (buf_write buf d) = length buf"
  by (simp add: buf_write_def)

lemma buf_write_full: "length d = length buf \<Longrightarrow> buf_write buf d = d"
  by (simp add: buf_write_def)

lemma tmp_name: "take 255 (VAULT_FILE @ ''.tmp'') = ''vault_aes.dat.tmp''"
  by (simp add: VAULT_FILE_def)

lemma tmp_neq: "''vault_aes.dat.tmp'' \<noteq> VAULT_FILE"
  by (simp add: VAULT_FILE_def)

lemma write_all_atomic_files:
  "files (snd (write_all_atomic VAULT_FILE data n w)) VAULT_FILE =
     (if fault w = NoFault then Some (take n data) else files w VAULT_FILE)"
  unfolding write_all_atomic_def tmp_name using tmp_neq
  by (cases "fault w") (simp_all add: Let_def rename_file_def)

lemma write_all_atomic_result:
  "fst (write_all_atomic VAULT_FILE data n w) = Inr () \<longleftrightarrow> fault w = NoFault"
  by (cases "fault w") (simp_all add: write_all_atomic_def Let_def)

lemma write_all_atomic_rest:
  "entropy (snd (write_all_atomic p data n w)) = entropy w"
  "tty (snd (write_all_atomic p data n w)) = tty w"
  "fault (snd (write_all_atomic p data n w)) = fault w"
  by (cases "fault w"; simp add: write_all_atomic_def Let_def)+


lemma save_vault_InrD:
  assumes "save_vault E L pw w = (Inr u, w')"
  shows "\<exists>salt nonce key ct tag.
           salt = take SALT_LEN (entropy w) \<and> length salt = SALT_LEN \<and>
           nonce = take NONCE_LEN (drop SALT_LEN (entropy w)) \<and> length nonce = NONCE_LEN \<and>
           kdf_pbkdf2_sha256 E pw salt PBKDF2_ITERS (malloc E KEY_LEN) KEY_LEN = Some key \<and>
           aes256gcm_encrypt E key nonce (serialize L) (malloc E (length (serialize L)))
             (malloc E TAG_LEN) = Some (ct, tag) \<and>
           length ct = length (serialize L) \<and> length tag = TAG_LEN \<and>
           fault w = NoFault \<and>
           files w' VAULT_FILE =
             Some (assemble E PBKDF2_ITERS salt nonce (of_nat (length (serialize L))) ct tag) \<and>
           assemble E PBKDF2_ITERS salt nonce (of_nat (length (serialize L))) ct tag =
             MAGIC @ store_u32 (host_endian E) PBKDF2_ITERS @ salt @ nonce @
             store_u32 (host_endian E) (of_nat (length (serialize L))) @
             take (unat (of_nat (length (serialize L)) :: 32 word)) ct @ tag"
proof -
  define plain where "plain = serialize L"
  from assms obtain salt w1 where r1: "crypto_rand SALT_LEN w = (Some salt, w1)"
    by (auto simp: save_vault_def split: prod.splits option.splits)
  from assms r1 obtain nonce w2 where r2: "crypto_rand NONCE_LEN w1 = (Some nonce, w2)"
    by (auto simp: save_vault_def split: prod.splits option.splits)
  from assms r1 r2 obtain key where
    k: "kdf_pbkdf2_sha256 E pw salt PBKDF2_ITERS (malloc E KEY_LEN) KEY_LEN = Some key"
    by (auto simp: save_vault_def Let_def split: prod.splits option.splits)
  from assms r1 r2 k obtain ct tag where
    e: "aes256gcm_encrypt E key nonce plain (malloc E (length plain)) (malloc E TAG_LEN) = Some (ct, tag)"
    by (auto simp: save_vault_def Let_def plain_def split: prod.splits option.splits)
  define ctl where "ctl = (of_nat (length plain) :: 32 word)"
  define out where "out = assemble E PBKDF2_ITERS salt nonce ctl ct tag"
  from assms r1 r2 k e have wr:
    "write_all_atomic VAULT_FILE out (MAGIC_LEN + 4 + SALT_LEN + NONCE_LEN + 4 + unat ctl + TAG_LEN) w2
       = (Inr u, w')"
    by (simp add: save_vault_def Let_def plain_def [symmetric] ctl_def out_def)
  from r1 have s: "salt = take SALT_LEN (entropy w)" "length salt = SALT_LEN"
    and w1: "w1 = w\<lparr>entropy := drop SALT_LEN (entropy w)\<rparr>"
    by (auto dest: crypto_rand_SomeD)
  from r2 w1 have n: "nonce = take NONCE_LEN (drop SALT_LEN (entropy w))" "length nonce = NONCE_LEN"
    and w2: "fault w2 = fault w"
    by (auto dest: crypto_rand_SomeD)
  from e have lct: "length ct = length plain" and lt: "length tag = TAG_LEN"
    by (auto simp: aes256gcm_encrypt_def length_buf_write length_malloc split: option.splits)
  have "unat ctl \<le> length plain"
    by (simp add: ctl_def unat_of_nat)
  with lct have le: "unat ctl \<le> length ct" by simp
  have asm: "out = MAGIC @ store_u32 (host_endian E) PBKDF2_ITERS @ salt @ nonce @
             store_u32 (host_endian E) ctl @ take (unat ctl) ct @ tag"
    unfolding out_def using s(2) n(2) le lt by (rule assemble_eq)
  have lout: "length out = MAGIC_LEN + 4 + SALT_LEN + NONCE_LEN + 4 + unat ctl + TAG_LEN"
    using s(2) n(2) le lt
    by (simp add: asm length_MAGIC length_store_u32 MAGIC_LEN_def min_absorb2)
  from wr have nf: "fault w2 = NoFault"
    using write_all_atomic_result [of out "MAGIC_LEN + 4 + SALT_LEN + NONCE_LEN + 4 + unat ctl + TAG_LEN" w2]
    by simp
  from wr nf lout have f: "files w' VAULT_FILE = Some out"
    using write_all_atomic_files [of out "MAGIC_LEN + 4 + SALT_LEN + NONCE_LEN + 4 + unat ctl + TAG_LEN" w2]
    by simp
  note facts = s n k e lct lt nf [unfolded w2] f asm
  show ?thesis
    apply (rule exI [of _ salt], rule exI [of _ nonce], rule exI [of _ key])
    apply (rule exI [of _ ct], rule exI [of _ tag])
    using facts [unfolded plain_def ctl_def out_def] apply (intro conjI)
    apply assumption+
    done
qed

lemma save_vault_InlD:
  assumes "save_vault E L pw w = (Inl e, w')"
  shows "files w' VAULT_FILE = files w VAULT_FILE"
proof -
  have files_rand: "files w1 = files w" if "crypto_rand n w = (r, w1)" for n r w1 w
    using that by (auto simp: crypto_rand_def split: if_splits)
  obtain r1 w1 where r1: "crypto_rand SALT_LEN w = (r1, w1)" by fastforce
  obtain r2 w2 where r2: "crypto_rand NONCE_LEN w1 = (r2, w2)" by fastforce
  have fw: "files w2 = files w" "files w1 = files w"
    using files_rand [OF r1] files_rand [OF r2] by simp_all
  show ?thesis
  proof (cases r1)
    case None
    with assms r1 fw show ?thesis by (simp add: save_vault_def)
  next
    case salt: (Some salt)
    show ?thesis
    proof (cases r2)
      case None
      with assms r1 r2 salt fw show ?thesis by (simp add: save_vault_def)
    next
      case nonce: (Some nonce)
      show ?thesis
      proof (cases "kdf_pbkdf2_sha256 E pw salt PBKDF2_ITERS (malloc E KEY_LEN) KEY_LEN")
        case None
        with assms r1 r2 salt nonce fw show ?thesis by (simp add: save_vault_def Let_def)
      next
        case key: (Some key)
        show ?thesis
        proof (cases "aes256gcm_encrypt E key nonce (serialize L) (malloc E (length (serialize L)))
                        (malloc E TAG_LEN)")
          case None
          with assms r1 r2 salt nonce key fw show ?thesis by (simp add: save_vault_def Let_def)
        next
          case (Some p)
          obtain ct tag where p: "p = (ct, tag)" by (cases p)
          define out where
            "out = assemble E PBKDF2_ITERS salt nonce (of_nat (length (serialize L))) ct tag"
          define n where "n = MAGIC_LEN + 4 + SALT_LEN + NONCE_LEN + 4 +
            unat (of_nat (length (serialize L)) :: 32 word) + TAG_LEN"
          have "save_vault E L pw w = write_all_atomic VAULT_FILE out n w2"
            unfolding save_vault_def Let_def out_def n_def
            by (simp only: r1 r2 salt nonce key Some p prod.case option.case)
          with assms have wr: "write_all_atomic VAULT_FILE out n w2 = (Inl e, w')" by simp
          then have "fault w2 \<noteq> NoFault"
            using write_all_atomic_result [of out n w2] by auto
          with wr fw show ?thesis
            using write_all_atomic_files [of out n w2] by simp
        qed
      qed
    qed
  qed
qed

subsection \<open>What a load has done when it returns\<close>

lemma load_vault_AuthFailedD:
  assumes "load_vault E pw w = (Inl AuthFailed, plain)"
  shows "\<exists>buf c key. read_all VAULT_FILE w = Some buf \<and> decode_container (host_endian E) buf = Inr c \<and>
           kdf_pbkdf2_sha256 E pw (c_salt c) (c_iters c) (malloc E KEY_LEN) KEY_LEN = Some key \<and>
           fst (aes256gcm_decrypt E key (c_nonce c) (c_ct c) (c_tag c) (malloc E (unat (c_ct_len c) + 1))) = - 1 \<and>
           length plain = unat (c_ct_len c) + 1 \<and>
           take (unat (c_ct_len c)) plain = replicate (unat (c_ct_len c)) NUL"
proof -
  from assms obtain buf where b: "read_all VAULT_FILE w = Some buf"
    by (auto simp: load_vault_def split: option.splits)
  from assms b obtain c where c: "decode_container (host_endian E) buf = Inr c"
    by (cases "decode_container (host_endian E) buf")
       (auto simp: load_vault_def dest: decode_container_InlD)
  from assms b c obtain key where
    k: "kdf_pbkdf2_sha256 E pw (c_salt c) (c_iters c) (malloc E KEY_LEN) KEY_LEN = Some key"
    by (auto simp: load_vault_def split: option.splits)
  define n where "n = unat (c_ct_len c)"
  obtain rc out where d: "aes256gcm_decrypt E key (c_nonce c) (c_ct c) (c_tag c) (malloc E (n + 1)) = (rc, out)"
    by fastforce
  have lo: "length out = n + 1" and rc: "rc = 0 \<or> rc = - 1"
    using d by (auto simp: aes256gcm_decrypt_def length_buf_write length_malloc Let_def
        split: option.splits if_splits)
  from assms b c k d have p: "plain = secure_bzero out n" and "rc \<noteq> 0"
    by (auto simp: load_vault_def Let_def n_def split: if_splits)
  with rc have "rc = - 1" by simp
  with d have f1: "fst (aes256gcm_decrypt E key (c_nonce c) (c_ct c) (c_tag c) (malloc E (n + 1))) = - 1"
    by simp
  from p lo have f2: "length plain = n + 1" and f3: "take n plain = replicate n NUL"
    by (simp_all add: secure_bzero_def)
  from b c k f1 [unfolded n_def] f2 [unfolded n_def] f3 [unfolded n_def] show ?thesis
    by blast
qed

lemma load_vault_InrD:
  assumes "load_vault E pw w = (Inr L, plain)"
  shows "\<exists>buf c key pt. read_all VAULT_FILE w = Some buf \<and> decode_container (host_endian E) buf = Inr c \<and>
           kdf_pbkdf2_sha256 E pw (c_salt c) (c_iters c) (malloc E KEY_LEN) KEY_LEN = Some key \<and>
           EVP_DecryptUpdate E key (c_nonce c) (c_ct c) = Some pt \<and>
           EVP_DecryptFinal E key (c_nonce c) (c_ct c) (c_tag c) \<and>
           L = parse_lines ((buf_write (malloc E (unat (c_ct_len c) + 1)) pt)[unat (c_ct_len c) := NUL])"
proof -
  from assms obtain buf where b: "read_all VAULT_FILE w = Some buf"
    by (auto simp: load_vault_def split: option.splits)
  from assms b obtain c where c: "decode_container (host_endian E) buf = Inr c"
    by (cases "decode_container (host_endian E) buf") (auto simp: load_vault_def)
  from assms b c obtain key where
    k: "kdf_pbkdf2_sha256 E pw (c_salt c) (c_iters c) (malloc E KEY_LEN) KEY_LEN = Some key"
    by (auto simp: load_vault_def split: option.splits)
  define n where "n = unat (c_ct_len c)"
  obtain rc out where d: "aes256gcm_decrypt E key (c_nonce c) (c_ct c) (c_tag c) (malloc E (n + 1)) = (rc, out)"
    by fastforce
  from assms b c k d have rc: "rc = 0" and L: "L = parse_lines (out[n := NUL])"
    by (auto simp: load_vault_def Let_def n_def split: if_splits)
  from d rc obtain pt where "EVP_DecryptUpdate E key (c_nonce c) (c_ct c) = Some pt"
    "EVP_DecryptFinal E key (c_nonce c) (c_ct c) (c_tag c)" "out = buf_write (malloc E (n + 1)) pt"
    by (auto simp: aes256gcm_decrypt_def Let_def split: option.splits if_splits)
  with b c k L show ?thesis unfolding n_def by blast
qed

subsection \<open>The parser is a split and a filter\<close>

lemma split_on_nonempty: "split_on d s \<noteq> []"
  by (induction s) (auto split: list.splits)

lemma split_on_token:
  "d \<notin> set tok \<Longrightarrow> split_on d (tok @ d # rest) = tok # split_on d rest"
  by (induction tok) auto

lemma split_on_last: "d \<notin> set tok \<Longrightarrow> split_on d tok = [tok]"
  by (induction tok) auto

lemma filter_split_on_dropWhile:
  "\<not> P [] \<Longrightarrow> filter P (split_on d (dropWhile (\<lambda>c. c = d) s)) = filter P (split_on d s)"
  by (induction s) auto

lemma strtok_r_NoneD:
  assumes "strtok_r s [d] = None" and "\<not> P []"
  shows "filter P (split_on d s) = []"
proof -
  from assms(1) have "dropWhile (\<lambda>c. c = d) s = []"
    by (simp add: strtok_r_def Let_def split: if_splits)
  then have "filter P (split_on d (dropWhile (\<lambda>c. c = d) s)) = filter P (split_on d [])"
    by (simp only:)
  also have "\<dots> = []" using assms(2) by simp
  finally show ?thesis by (simp only: filter_split_on_dropWhile [of P, OF assms(2)])
qed

lemma strtok_r_SomeD:
  assumes "strtok_r s [d] = Some (tok, rest)" and "\<not> P []"
  shows "tok \<noteq> [] \<and> d \<notin> set tok \<and>
         filter P (split_on d s) = (if P tok then [tok] else []) @ filter P (split_on d rest)"
proof -
  define s' where "s' = dropWhile (\<lambda>c. c = d) s"
  define tl' where "tl' = dropWhile (\<lambda>c. c \<noteq> d) s'"
  from assms(1) have ne: "s' \<noteq> []" and tok: "tok = takeWhile (\<lambda>c. c \<noteq> d) s'"
    and rest: "rest = drop 1 tl'"
    by (auto simp: strtok_r_def Let_def s'_def tl'_def split: if_splits)
  have hd: "hd s' \<noteq> d"
    using ne unfolding s'_def by (rule hd_dropWhile)
  with ne have tne: "tok \<noteq> []" by (cases s') (auto simp: tok)
  have notin: "d \<notin> set tok"
    unfolding tok by (auto dest: set_takeWhileD)
  have s'eq: "s' = tok @ tl'"
    by (simp add: tok tl'_def)
  have "filter P (split_on d s') = (if P tok then [tok] else []) @ filter P (split_on d rest)"
  proof (cases tl')
    case Nil
    with s'eq rest notin assms(2) show ?thesis by (simp add: split_on_last)
  next
    case (Cons c cs)
    from Cons have "tl' \<noteq> []" by simp
    then have "\<not> (hd tl' \<noteq> d)" unfolding tl'_def by (rule hd_dropWhile)
    with Cons have "c = d" by simp
    with Cons s'eq rest notin show ?thesis by (simp add: split_on_token)
  qed
  with tne notin show ?thesis
    by (simp add: s'_def filter_split_on_dropWhile [of P, OF assms(2)])
qed

lemma parse_loop_eq:
  "parse_loop s L = L @ filter keep_line (split_on LF s)"
proof (induction s L rule: parse_loop.induct)
  case (1 s L)
  have nk: "\<not> keep_line []" by (simp add: keep_line_def)
  show ?case
  proof (cases "strtok_r s [LF]")
    case None
    then show ?thesis
      by (subst parse_loop.simps) (simp add: strtok_r_NoneD [of s LF keep_line, OF None nk])
  next
    case (Some p)
    obtain tok rest where p: "p = (tok, rest)" by (cases p)
    note S = Some [unfolded p]
    from strtok_r_SomeD [of s LF tok rest keep_line, OF S nk] have tne: "tok \<noteq> []"
      and sp: "filter keep_line (split_on LF s) =
                (if keep_line tok then [tok] else []) @ filter keep_line (split_on LF rest)"
      by simp_all
    show ?thesis
    proof (cases "case tok of [] \<Rightarrow> False | c # x \<Rightarrow> c = CHR ''#''")
      case True
      then have "\<not> keep_line tok" by (cases tok) (auto simp: keep_line_def)
      with True S sp "1.IH"(1) [OF S refl True] show ?thesis
        by (subst parse_loop.simps) simp
    next
      case False
      with tne have "keep_line tok" by (cases tok) (auto simp: keep_line_def)
      with False tne S sp "1.IH"(2) [OF S refl False tne] show ?thesis
        by (subst parse_loop.simps) (simp add: lines_push_def)
    qed
  qed
qed

lemma parse_lines_eq_spec: "parse_lines plain = parse_spec plain"
  by (simp add: parse_lines_def parse_spec_def parse_loop_eq)

lemma split_serialize_rows:
  "\<forall>r\<in>set L. LF \<notin> set r \<Longrightarrow> split_on LF (serialize_rows L) = L @ [[]]"
  by (induction L) (simp_all add: split_on_token)

lemma hdr_split: "hdr = ''# AES_VAULT (authenticated)'' @ LF # []" "LF \<notin> set ''# AES_VAULT (authenticated)''"
  by (simp_all add: hdr_def LF_def)

lemma split_serialize:
  assumes "\<forall>r\<in>set L. LF \<notin> set r"
  shows "split_on LF (serialize L) = ''# AES_VAULT (authenticated)'' # L @ [[]]"
proof -
  have "serialize L = ''# AES_VAULT (authenticated)'' @ LF # serialize_rows L"
    by (simp add: serialize_def hdr_def)
  then show ?thesis
    using split_on_token [OF hdr_split(2), of "serialize_rows L"] split_serialize_rows [OF assms]
    by simp
qed

lemma NUL_notin_serialize:
  "\<forall>r\<in>set L. NUL \<notin> set r \<Longrightarrow> NUL \<notin> set (serialize L)"
  by (induction L) (auto simp: serialize_def hdr_def NUL_def LF_def)

lemma c_str_terminated: "NUL \<notin> set s \<Longrightarrow> c_str (s @ NUL # junk) = s"
  by (auto simp: c_str_def takeWhile_tail)

lemma parse_serialize:
  assumes "\<forall>r\<in>set L. row_ok r"
  shows "parse_lines (serialize L @ NUL # junk) = L"
proof -
  from assms have lf: "\<forall>r\<in>set L. LF \<notin> set r" and nul: "\<forall>r\<in>set L. NUL \<notin> set r"
    and keep: "\<forall>r\<in>set L. keep_line r"
    by (auto simp: row_ok_def)
  have "c_str (serialize L @ NUL # junk) = serialize L"
    using NUL_notin_serialize [OF nul] by (rule c_str_terminated)
  moreover have "\<not> keep_line ''# AES_VAULT (authenticated)''" "\<not> keep_line []"
    by (simp_all add: keep_line_def)
  moreover from keep have "filter keep_line L = L" by (simp add: filter_id_conv)
  ultimately show ?thesis
    by (simp add: parse_lines_eq_spec parse_spec_def split_serialize [OF lf])
qed

subsection \<open>Fields of a row\<close>

lemma strtok_r_field:
  assumes "f \<noteq> []" and "d \<notin> set f"
  shows "strtok_r (f @ d # rest) [d] = Some (f, rest)"
proof -
  from assms obtain c cs where f: "f = c # cs" and c: "c \<noteq> d" by (cases f) auto
  have t: "takeWhile (\<lambda>c. c \<noteq> d) (f @ d # rest) = f"
    using assms(2) by (auto simp: takeWhile_tail)
  have dr: "dropWhile (\<lambda>c. c \<noteq> d) (f @ d # rest) = d # rest"
    using assms(2) by (auto simp: dropWhile_append)
  have d0: "dropWhile (\<lambda>c. c \<in> set [d]) (f @ d # rest) = f @ d # rest"
    using c by (simp add: f)
  have t': "takeWhile (\<lambda>c. c \<notin> set [d]) (f @ d # rest) = f"
    "dropWhile (\<lambda>c. c \<notin> set [d]) (f @ d # rest) = d # rest"
    using t dr by simp_all
  show ?thesis
    unfolding strtok_r_def Let_def d0 t' using assms(1) by simp
qed

lemma strtok_r_last:
  assumes "f \<noteq> []" and "d \<notin> set f"
  shows "strtok_r f [d] = Some (f, [])"
proof -
  from assms obtain c cs where f: "f = c # cs" and c: "c \<noteq> d" by (cases f) auto
  have t: "takeWhile (\<lambda>c. c \<noteq> d) f = f" "dropWhile (\<lambda>c. c \<noteq> d) f = []"
    using assms(2) by (auto simp: takeWhile_eq_all_conv)
  have d0: "dropWhile (\<lambda>c. c \<in> set [d]) f = f"
    using c by (simp add: f)
  have t': "takeWhile (\<lambda>c. c \<notin> set [d]) f = f" "dropWhile (\<lambda>c. c \<notin> set [d]) f = []"
    using t by simp_all
  show ?thesis
    unfolding strtok_r_def Let_def d0 t' using assms(1) by simp
qed

lemma c_str_id: "NUL \<notin> set s \<Longrightarrow> c_str s = s"
  by (auto simp: c_str_def takeWhile_eq_all_conv)

lemma show_fields_add_line:
  assumes "record_ok (svc, usr, pwd)"
  shows "add_line svc usr pwd = svc @ TAB # usr @ TAB # pwd \<and>
         show_fields (add_line svc usr pwd) = Some (svc, usr, pwd)"
proof -
  from assms have ok: "field_ok svc" "field_ok usr" "field_ok pwd"
    and len: "length svc + length usr + length pwd + 2 < MAX_LINE"
    by simp_all
  define row where "row = svc @ TAB # usr @ TAB # pwd"
  have a: "add_line svc usr pwd = row"
    using len by (simp add: add_line_def row_def MAX_LINE_def)
  have "NUL \<notin> set row"
    using ok by (auto simp: row_def field_ok_def TAB_def NUL_def)
  moreover have "length row \<le> MAX_LINE - 1"
    using len by (simp add: row_def MAX_LINE_def)
  ultimately have buf: "c_str (take (MAX_LINE - 1) row) = row"
    by (simp add: c_str_id)
  have 1: "strtok_r row [TAB] = Some (svc, usr @ TAB # pwd)"
    unfolding row_def using ok(1) by (intro strtok_r_field) (simp_all add: field_ok_def)
  have 2: "strtok_r (usr @ TAB # pwd) [TAB] = Some (usr, pwd)"
    using ok(2) by (intro strtok_r_field) (simp_all add: field_ok_def)
  have 3: "strtok_r pwd [TAB] = Some (pwd, [])"
    using ok(3) by (intro strtok_r_last) (simp_all add: field_ok_def)
  have "show_fields row = Some (svc, usr, pwd)"
    unfolding show_fields_def Let_def buf 1 by (simp add: 2 3)
  with a show ?thesis by (simp add: row_def)
qed

lemma record_row_ok:
  assumes "record_ok (svc, usr, pwd)"
  shows "row_ok (add_line svc usr pwd)"
proof -
  from assms have ok: "field_ok svc" "field_ok usr" "field_ok pwd" and h: "take 1 svc \<noteq> ''#''"
    by simp_all
  from ok(1) obtain c cs where s: "svc = c # cs" by (cases svc) (auto simp: field_ok_def)
  from show_fields_add_line [OF assms] have a: "add_line svc usr pwd = svc @ TAB # usr @ TAB # pwd"
    by simp
  show ?thesis
    using ok h unfolding a row_ok_def keep_line_def
    by (auto simp: s field_ok_def TAB_def LF_def NUL_def)
qed

subsection \<open>Loading what was saved\<close>

lemma load_after_save:
  assumes gcm: "gcm_ok E"
    and sv: "save_vault E L pw w = (Inr u, w')"
    and rows: "\<forall>r\<in>set L. row_ok r"
    and small: "length (serialize L) < 2 ^ 32"
    and same: "files w'' VAULT_FILE = files w' VAULT_FILE"
  shows "fst (load_vault E pw w'') = Inr L"
proof -
  define plain where "plain = serialize L"
  define ctl where "ctl = (of_nat (length plain) :: 32 word)"
  define h where "h = host_endian E"
  from save_vault_InrD [OF sv] obtain salt nonce key ct tag where
    ls: "length salt = SALT_LEN" and ln: "length nonce = NONCE_LEN"
    and k: "kdf_pbkdf2_sha256 E pw salt PBKDF2_ITERS (malloc E KEY_LEN) KEY_LEN = Some key"
    and e: "aes256gcm_encrypt E key nonce plain (malloc E (length plain)) (malloc E TAG_LEN) = Some (ct, tag)"
    and lct: "length ct = length plain" and lt: "length tag = TAG_LEN"
    and f: "files w' VAULT_FILE = Some (assemble E PBKDF2_ITERS salt nonce ctl ct tag)"
    and asm: "assemble E PBKDF2_ITERS salt nonce ctl ct tag =
             MAGIC @ store_u32 h PBKDF2_ITERS @ salt @ nonce @ store_u32 h ctl @ take (unat ctl) ct @ tag"
    unfolding plain_def ctl_def h_def by blast
  from e obtain c0 t0 where eu: "EVP_EncryptUpdate E key nonce plain = Some c0"
    and gt: "EVP_GCM_GET_TAG E key nonce plain = Some t0"
    and ct: "ct = buf_write (malloc E (length plain)) c0"
    and tag: "tag = buf_write (malloc E TAG_LEN) t0"
    by (auto simp: aes256gcm_encrypt_def split: option.splits)
  from gcm eu gt have lc0: "length c0 = length plain" and lt0: "length t0 = TAG_LEN"
    and du: "EVP_DecryptUpdate E key nonce c0 = Some plain"
    and df: "EVP_DecryptFinal E key nonce c0 t0"
    unfolding gcm_ok_def by blast+
  have ct': "ct = c0" and tag': "tag = t0"
    using lc0 lt0 by (simp_all add: ct tag buf_write_full length_malloc)
  have n: "unat ctl = length plain"
    using small by (simp add: ctl_def plain_def unat_of_nat)
  have lX: "length (ct @ tag) = unat ctl + TAG_LEN" using lct lt n by simp
  have dec: "decode_container h (assemble E PBKDF2_ITERS salt nonce ctl ct tag) =
          Inr \<lparr>c_iters = PBKDF2_ITERS, c_salt = salt, c_nonce = nonce, c_ct_len = ctl,
               c_ct = ct, c_tag = tag\<rparr>"
    unfolding asm using lX lct lt n by (simp add: decode_header [OF ls ln])
  have d: "aes256gcm_decrypt E key nonce ct tag (malloc E (length plain + 1)) =
             (0, plain @ [heap_junk E (length plain)])"
    using du df
    by (simp add: aes256gcm_decrypt_def ct' tag' buf_write_def length_malloc malloc_def)
  have "parse_lines ((plain @ [heap_junk E (length plain)])[length plain := NUL]) = L"
    using parse_serialize [OF rows, of "[]"] by (simp add: plain_def)
  then show ?thesis
    using f dec k d n
    by (simp add: load_vault_def read_all_def same h_def [symmetric] Let_def)
qed

subsection \<open>The save is all or nothing\<close>

lemma save_fwrite_fails:
  "fst (save_vault (test_env LittleEndian) [] ''Secret1'' (old_world (FwriteFails 10))) = Inl (Die ''fwrite'')"
  by (simp add: save_vault_def old_world_def test_world_def crypto_rand_def SALT_LEN_def NONCE_LEN_def
      kdf_pbkdf2_sha256_def KEY_LEN_def test_env_def aes256gcm_encrypt_def write_all_atomic_def Let_def
      split_beta)


lemma save_ok_test:
  "fst (save_vault (test_env h) L pw (old_world NoFault)) = Inr ()"
  by (simp add: save_vault_def old_world_def test_world_def crypto_rand_def SALT_LEN_def NONCE_LEN_def
      kdf_pbkdf2_sha256_def KEY_LEN_def test_env_def aes256gcm_encrypt_def write_all_atomic_def Let_def
      split_beta)

lemma length_test_tag: "length (test_tag key) = 16"
  by (simp add: test_tag_def min_def)

lemma test_env_gcm_ok: "gcm_ok (test_env h)"
  by (simp add: gcm_ok_def test_env_def length_test_tag TAG_LEN_def)

lemma save_vault_rest:
  "save_vault E L pw w = (Inr u, w') \<Longrightarrow> tty w' = tty w"
  by (auto simp: save_vault_def Let_def crypto_rand_def write_all_atomic_rest
      split: prod.splits option.splits if_splits
      dest!: arg_cong [where f = "\<lambda>p. tty (snd p)"])

text \<open>
  C6. \<open>write_all_atomic\<close> writes the bytes to the temporary file and renames it over
  the vault only after \<open>fopen\<close>, \<open>fwrite\<close> and \<open>fclose\<close> have succeeded. Whatever I/O
  fault the save meets (\<open>fopen\<close>, \<open>fwrite\<close> or \<open>fclose\<close> after any number of bytes, or
  \<open>rename\<close>), the call fails and the vault file holds what it held before; without a
  fault it holds exactly the bytes passed. For \<open>save_vault\<close> as a whole: a save that
  fails, at the random source, the key derivation, the cipher or the write, leaves the
  vault file as it was, and a save that succeeds leaves the complete assembled container.
\<close>

theorem save_is_atomic:
  "files (snd (write_all_atomic VAULT_FILE data n w)) VAULT_FILE =
     (if fault w = NoFault then Some (take n data) else files w VAULT_FILE) \<and>
   (fst (write_all_atomic VAULT_FILE data n w) = Inr () \<longleftrightarrow> fault w = NoFault) \<and>
   (save_vault E L pw w = (Inl e, w') \<longrightarrow> files w' VAULT_FILE = files w VAULT_FILE) \<and>
   (save_vault E L pw w = (Inr u, w') \<longrightarrow>
      fault w = NoFault \<and>
      (\<exists>salt nonce ct tag.
         files w' VAULT_FILE =
           Some (assemble E PBKDF2_ITERS salt nonce (of_nat (length (serialize L))) ct tag)))"
proof (intro conjI impI)
  show "files (snd (write_all_atomic VAULT_FILE data n w)) VAULT_FILE =
     (if fault w = NoFault then Some (take n data) else files w VAULT_FILE)"
    by (rule write_all_atomic_files)
  show "fst (write_all_atomic VAULT_FILE data n w) = Inr () \<longleftrightarrow> fault w = NoFault"
    by (rule write_all_atomic_result)
  show "files w' VAULT_FILE = files w VAULT_FILE" if "save_vault E L pw w = (Inl e, w')"
    using that by (rule save_vault_InlD)
  show "fault w = NoFault" if "save_vault E L pw w = (Inr u, w')"
    using save_vault_InrD [OF that] by blast
  show "\<exists>salt nonce ct tag. files w' VAULT_FILE =
           Some (assemble E PBKDF2_ITERS salt nonce (of_nat (length (serialize L))) ct tag)"
    if "save_vault E L pw w = (Inr u, w')"
    using save_vault_InrD [OF that] by blast
qed

theorem save_is_atomic_witness:
  "fst (save_vault (test_env LittleEndian) [] ''Secret1'' (old_world (FwriteFails 10))) = Inl (Die ''fwrite'') \<and>
   files (snd (save_vault (test_env LittleEndian) [] ''Secret1'' (old_world (FwriteFails 10)))) VAULT_FILE
     = Some ''old vault'' \<and>
   fst (save_vault (test_env LittleEndian) [] ''Secret1'' (old_world NoFault)) = Inr () \<and>
   (\<exists>salt nonce ct tag.
      files (snd (save_vault (test_env LittleEndian) [] ''Secret1'' (old_world NoFault))) VAULT_FILE =
        Some (assemble (test_env LittleEndian) PBKDF2_ITERS salt nonce (of_nat (length (serialize []))) ct tag))"
proof -
  let ?T = "test_env LittleEndian"
  let ?F = "save_vault ?T [] ''Secret1'' (old_world (FwriteFails 10))"
  let ?S = "save_vault ?T [] ''Secret1'' (old_world NoFault)"
  have f: "?F = (Inl (Die ''fwrite''), snd ?F)"
    using save_fwrite_fails by (simp add: prod_eq_iff)
  have s: "?S = (Inr (), snd ?S)"
    using save_ok_test [of LittleEndian "[]" "''Secret1''"] by (simp add: prod_eq_iff)
  have old: "files (old_world (FwriteFails 10)) VAULT_FILE = Some ''old vault''"
    by (simp add: old_world_def)
  from save_is_atomic [of _ _ "old_world (FwriteFails 10)" ?T "[]" "''Secret1''" "Die ''fwrite''" "snd ?F"] f old
  have 1: "files (snd ?F) VAULT_FILE = Some ''old vault''" by simp
  from save_is_atomic [of _ _ "old_world NoFault" ?T "[]" "''Secret1''" _ "snd ?S" "()"] s
  have 2: "\<exists>salt nonce ct tag. files (snd ?S) VAULT_FILE =
        Some (assemble ?T PBKDF2_ITERS salt nonce (of_nat (length (serialize []))) ct tag)" by simp
  from save_fwrite_fails save_ok_test [of LittleEndian "[]" "''Secret1''"] 1 2 show ?thesis by simp
qed

subsection \<open>Truncated and hostile files\<close>



subsection \<open>The byte order of the two integers\<close>

lemma le_bytes32_iters: "le_bytes32 PBKDF2_ITERS = [CHR 0x40, CHR 0x0D, CHR 0x03, CHR 0x00]"
  by (simp add: le_bytes32_def PBKDF2_ITERS_def Let_def char_of_def bit_Suc_0_iff)

lemma le_bytes32_28: "le_bytes32 28 = [CHR 0x1C, CHR 0x00, CHR 0x00, CHR 0x00]"
  by (simp add: le_bytes32_def Let_def char_of_def bit_Suc_0_iff)

lemma length_hdr: "length hdr = 28"
  by (simp add: hdr_def)

lemma saved_container_fields:
  assumes sv: "save_vault E L pw w = (Inr u, w')"
  shows "vault_bytes w' 6 4 = Some (store_u32 (host_endian E) PBKDF2_ITERS) \<and>
         vault_bytes w' 38 4 = Some (store_u32 (host_endian E) (of_nat (length (serialize L)))) \<and>
         (\<exists>c d. files w' VAULT_FILE = Some c \<and> decode_container (host_endian E) c = Inr d \<and>
                c_iters d = PBKDF2_ITERS \<and> c_ct_len d = of_nat (length (serialize L)))"
proof -
  define h where "h = host_endian E"
  define ctl where "ctl = (of_nat (length (serialize L)) :: 32 word)"
  from save_vault_InrD [OF sv] obtain salt nonce ct tag where
    ls: "length salt = SALT_LEN" and ln: "length nonce = NONCE_LEN"
    and lct: "length ct = length (serialize L)" and lt: "length tag = TAG_LEN"
    and f: "files w' VAULT_FILE = Some (assemble E PBKDF2_ITERS salt nonce ctl ct tag)"
    and asm: "assemble E PBKDF2_ITERS salt nonce ctl ct tag =
             MAGIC @ store_u32 h PBKDF2_ITERS @ salt @ nonce @ store_u32 h ctl @ take (unat ctl) ct @ tag"
    unfolding h_def ctl_def by blast
  define X where "X = take (unat ctl) ct @ tag"
  have "unat ctl \<le> length (serialize L)" by (simp add: ctl_def unat_of_nat)
  with lct lt have lX: "length X = unat ctl + TAG_LEN" by (simp add: X_def)
  have 1: "vault_bytes w' 6 4 = Some (store_u32 h PBKDF2_ITERS)"
    by (simp add: vault_bytes_def read_all_def f asm slice_def length_MAGIC length_store_u32)
  have 2: "vault_bytes w' 38 4 = Some (store_u32 h ctl)"
    using ls ln
    by (simp add: vault_bytes_def read_all_def f asm slice_def length_MAGIC length_store_u32
        SALT_LEN_def NONCE_LEN_def)
  have "decode_container h (assemble E PBKDF2_ITERS salt nonce ctl ct tag) =
          Inr \<lparr>c_iters = PBKDF2_ITERS, c_salt = salt, c_nonce = nonce, c_ct_len = ctl,
               c_ct = take (unat ctl) X, c_tag = take TAG_LEN (drop (unat ctl) X)\<rparr>"
    unfolding asm X_def [symmetric] using lX by (simp add: decode_header [OF ls ln])
  with f have 3: "\<exists>c d. files w' VAULT_FILE = Some c \<and> decode_container h c = Inr d \<and>
                c_iters d = PBKDF2_ITERS \<and> c_ct_len d = ctl"
    by simp
  from 1 2 3 show ?thesis unfolding h_def ctl_def by simp
qed

text \<open>
  C8, as claimed, fails: the claim says the iterations and the ciphertext length are
  little-endian whatever the host's byte order. On a big-endian host \<open>save_vault\<close>
  writes both most significant byte first.
\<close>

theorem fields_big_endian_on_big_endian_host:
  "vault_bytes (snd (save_vault (test_env BigEndian) [] ''Secret1'' (old_world NoFault))) 6 4 =
     Some [CHR 0x00, CHR 0x03, CHR 0x0D, CHR 0x40] \<and>
   vault_bytes (snd (save_vault (test_env BigEndian) [] ''Secret1'' (old_world NoFault))) 6 4 \<noteq>
     Some (le_bytes32 PBKDF2_ITERS) \<and>
   vault_bytes (snd (save_vault (test_env BigEndian) [] ''Secret1'' (old_world NoFault))) 38 4 =
     Some [CHR 0x00, CHR 0x00, CHR 0x00, CHR 0x1C] \<and>
   vault_bytes (snd (save_vault (test_env BigEndian) [] ''Secret1'' (old_world NoFault))) 38 4 \<noteq>
     Some (le_bytes32 (of_nat (length (serialize []))))"
proof -
  let ?S = "save_vault (test_env BigEndian) [] ''Secret1'' (old_world NoFault)"
  have s: "?S = (Inr (), snd ?S)"
    using save_ok_test [of BigEndian "[]" "''Secret1''"] by (simp add: prod_eq_iff)
  have l: "length (serialize []) = 28" by (simp add: serialize_def length_hdr)
  from saved_container_fields [OF s] show ?thesis
    by (simp add: l store_u32_def le_bytes32_iters le_bytes32_28 test_env_def)
qed

text \<open>
  C8, amended. In every container that \<open>save_vault\<close> writes, the four bytes at offset 6
  and at offset 38 are the host's own representation of the iteration count and of the
  ciphertext length (\<open>memcpy\<close> of a \<open>uint32_t\<close>); on a little-endian host that is
  little-endian; and \<open>load_vault\<close> on a host of the same byte order reads both values
  back.
\<close>

theorem integers_in_host_byte_order:
  assumes "save_vault E L pw w = (Inr u, w')"
  shows "vault_bytes w' 6 4 = Some (store_u32 (host_endian E) PBKDF2_ITERS) \<and>
         vault_bytes w' 38 4 = Some (store_u32 (host_endian E) (of_nat (length (serialize L)))) \<and>
         (host_endian E = LittleEndian \<longrightarrow>
            vault_bytes w' 6 4 = Some (le_bytes32 PBKDF2_ITERS) \<and>
            vault_bytes w' 38 4 = Some (le_bytes32 (of_nat (length (serialize L))))) \<and>
         (\<exists>c d. files w' VAULT_FILE = Some c \<and> decode_container (host_endian E) c = Inr d \<and>
                c_iters d = PBKDF2_ITERS \<and> c_ct_len d = of_nat (length (serialize L)))"
  using saved_container_fields [OF assms] by (auto simp: store_u32_def)

theorem integers_in_host_byte_order_witness:
  "fst (save_vault (test_env LittleEndian) [] ''Secret1'' (old_world NoFault)) = Inr () \<and>
   host_endian (test_env LittleEndian) = LittleEndian \<and>
   vault_bytes (snd (save_vault (test_env LittleEndian) [] ''Secret1'' (old_world NoFault))) 6 4 =
     Some [CHR 0x40, CHR 0x0D, CHR 0x03, CHR 0x00] \<and>
   vault_bytes (snd (save_vault (test_env LittleEndian) [] ''Secret1'' (old_world NoFault))) 38 4 =
     Some [CHR 0x1C, CHR 0x00, CHR 0x00, CHR 0x00]"
proof -
  let ?S = "save_vault (test_env LittleEndian) [] ''Secret1'' (old_world NoFault)"
  have s: "?S = (Inr (), snd ?S)"
    using save_ok_test [of LittleEndian "[]" "''Secret1''"] by (simp add: prod_eq_iff)
  have l: "length (serialize []) = 28" by (simp add: serialize_def length_hdr)
  have h: "host_endian (test_env LittleEndian) = LittleEndian" by (simp add: test_env_def)
  from integers_in_host_byte_order [OF s] h save_ok_test [of LittleEndian "[]" "''Secret1''"] show ?thesis
    by (simp add: l store_u32_def le_bytes32_iters le_bytes32_28)
qed

subsection \<open>Decryption and the tag\<close>

lemma decode_tampered:
  "decode_container LittleEndian tampered_file =
   Inr \<lparr>c_iters = PBKDF2_ITERS, c_salt = replicate 16 (CHR 0x11), c_nonce = replicate 12 (CHR 0x22),
        c_ct_len = 3, c_ct = ''cba'', c_tag = ''not the real tag''\<rparr>"
  unfolding tampered_file_def
  by (subst decode_header) (simp_all add: SALT_LEN_def NONCE_LEN_def TAG_LEN_def)

lemma load_vault_mismatch:
  assumes "read_all VAULT_FILE w = Some buf"
    and "decode_container (host_endian E) buf = Inr c"
    and "kdf_pbkdf2_sha256 E pw (c_salt c) (c_iters c) (malloc E KEY_LEN) KEY_LEN = Some k"
    and "\<not> EVP_DecryptFinal E k (c_nonce c) (c_ct c) (c_tag c)"
  shows "fst (load_vault E pw w) = Inl AuthFailed"
  using assms
  by (simp add: load_vault_def aes256gcm_decrypt_def Let_def split: option.splits)

lemma kdf_test:
  "kdf_pbkdf2_sha256 (test_env h) pw salt iters (malloc (test_env h) KEY_LEN) KEY_LEN =
     Some (take 32 (pw @ salt @ replicate 32 NUL))"
proof -
  have "PKCS5_PBKDF2_HMAC (test_env h) pw salt iters 32 = Some (take 32 (pw @ salt @ replicate 32 NUL))"
    by (simp add: test_env_def)
  moreover have "length (take 32 (pw @ salt @ replicate 32 NUL)) = length (malloc (test_env h) 32)"
    by (simp add: length_malloc)
  ultimately show ?thesis
    by (simp add: kdf_pbkdf2_sha256_def KEY_LEN_def buf_write_full del: length_take)
qed

lemma load_tampered:
  "fst (load_vault (test_env LittleEndian) ''Secret1'' tampered_world) = Inl AuthFailed"
proof (rule load_vault_mismatch)
  show "read_all VAULT_FILE tampered_world = Some tampered_file"
    by (simp add: read_all_def tampered_world_def)
  show "decode_container (host_endian (test_env LittleEndian)) tampered_file =
     Inr \<lparr>c_iters = PBKDF2_ITERS, c_salt = replicate 16 (CHR 0x11), c_nonce = replicate 12 (CHR 0x22),
        c_ct_len = 3, c_ct = ''cba'', c_tag = ''not the real tag''\<rparr>"
    using decode_tampered by (simp add: test_env_def)
  show "kdf_pbkdf2_sha256 (test_env LittleEndian) ''Secret1''
     (c_salt \<lparr>c_iters = PBKDF2_ITERS, c_salt = replicate 16 (CHR 0x11), c_nonce = replicate 12 (CHR 0x22),
        c_ct_len = 3, c_ct = ''cba'', c_tag = ''not the real tag''\<rparr>)
     (c_iters \<lparr>c_iters = PBKDF2_ITERS, c_salt = replicate 16 (CHR 0x11), c_nonce = replicate 12 (CHR 0x22),
        c_ct_len = 3, c_ct = ''cba'', c_tag = ''not the real tag''\<rparr>)
     (malloc (test_env LittleEndian) KEY_LEN) KEY_LEN =
     Some (take 32 (''Secret1'' @ replicate 16 (CHR 0x11) @ replicate 32 NUL))"
    using kdf_test [of LittleEndian "''Secret1''" "replicate 16 (CHR 0x11)" PBKDF2_ITERS] by simp
  show "\<not> EVP_DecryptFinal (test_env LittleEndian)
          (take 32 (''Secret1'' @ replicate 16 (CHR 0x11) @ replicate 32 NUL))
     (c_nonce \<lparr>c_iters = PBKDF2_ITERS, c_salt = replicate 16 (CHR 0x11), c_nonce = replicate 12 (CHR 0x22),
        c_ct_len = 3, c_ct = ''cba'', c_tag = ''not the real tag''\<rparr>)
     (c_ct \<lparr>c_iters = PBKDF2_ITERS, c_salt = replicate 16 (CHR 0x11), c_nonce = replicate 12 (CHR 0x22),
        c_ct_len = 3, c_ct = ''cba'', c_tag = ''not the real tag''\<rparr>)
     (c_tag \<lparr>c_iters = PBKDF2_ITERS, c_salt = replicate 16 (CHR 0x11), c_nonce = replicate 12 (CHR 0x22),
        c_ct_len = 3, c_ct = ''cba'', c_tag = ''not the real tag''\<rparr>)"
    by (simp add: test_env_def test_tag_def)
qed

text \<open>
  C2, as claimed, fails for \<open>aes256gcm_decrypt\<close>: it hands \<open>out_pt\<close> to
  \<open>EVP_DecryptUpdate\<close> before the tag is compared, so on a mismatch the caller's
  buffer already holds the decrypted bytes when \<open>-1\<close> comes back.
\<close>

theorem decrypt_writes_before_verifying:
  "\<not> EVP_DecryptFinal (test_env LittleEndian) ''key'' ''nonce'' ''txet'' ''not the tag'' \<and>
   aes256gcm_decrypt (test_env LittleEndian) ''key'' ''nonce'' ''txet'' ''not the tag''
     (replicate 5 (CHR 0xAA)) = (- 1, ''text'' @ [CHR 0xAA])"
  by (simp add: aes256gcm_decrypt_def test_env_def buf_write_def test_tag_def)

text \<open>
  C2, amended. For every key, nonce, ciphertext and tag, \<open>aes256gcm_decrypt\<close> returns 0
  only if the tag verifies and otherwise the one failure code \<open>-1\<close>; in both cases the
  bytes that \<open>EVP_DecryptUpdate\<close> produced are in the caller's buffer. \<open>load_vault\<close>,
  the only caller, answers a tag mismatch with the one failure \<open>AuthFailed\<close>, and when it
  does, the plaintext block has been overwritten with zeros up to the byte kept for the
  terminator and nothing was parsed; it returns rows only when the tag has verified.
\<close>

theorem decrypt_fails_with_one_signal:
  "(fst (aes256gcm_decrypt E key nonce ct tag out_pt) = 0 \<or>
    fst (aes256gcm_decrypt E key nonce ct tag out_pt) = - 1) \<and>
   (fst (aes256gcm_decrypt E key nonce ct tag out_pt) = 0 \<longrightarrow> EVP_DecryptFinal E key nonce ct tag) \<and>
   (EVP_DecryptUpdate E key nonce ct = Some pt \<longrightarrow>
      snd (aes256gcm_decrypt E key nonce ct tag out_pt) = buf_write out_pt pt) \<and>
   (read_all VAULT_FILE w = Some buf \<and> decode_container (host_endian E) buf = Inr c \<and>
    kdf_pbkdf2_sha256 E pw (c_salt c) (c_iters c) (malloc E KEY_LEN) KEY_LEN = Some k \<and>
    \<not> EVP_DecryptFinal E k (c_nonce c) (c_ct c) (c_tag c) \<longrightarrow>
      fst (load_vault E pw w) = Inl AuthFailed) \<and>
   (load_vault E pw w = (Inl AuthFailed, plain) \<longrightarrow>
      plain \<noteq> [] \<and> take (length plain - 1) plain = replicate (length plain - 1) NUL) \<and>
   (load_vault E pw w = (Inr L, plain) \<longrightarrow>
      (\<exists>buf c k. read_all VAULT_FILE w = Some buf \<and> decode_container (host_endian E) buf = Inr c \<and>
         kdf_pbkdf2_sha256 E pw (c_salt c) (c_iters c) (malloc E KEY_LEN) KEY_LEN = Some k \<and>
         EVP_DecryptFinal E k (c_nonce c) (c_ct c) (c_tag c)))"
proof (intro conjI impI)
  show "fst (aes256gcm_decrypt E key nonce ct tag out_pt) = 0 \<or>
    fst (aes256gcm_decrypt E key nonce ct tag out_pt) = - 1"
    by (simp add: aes256gcm_decrypt_def Let_def split: option.splits)
  show "EVP_DecryptFinal E key nonce ct tag" if "fst (aes256gcm_decrypt E key nonce ct tag out_pt) = 0"
    using that by (simp add: aes256gcm_decrypt_def Let_def split: option.splits if_splits)
  show "snd (aes256gcm_decrypt E key nonce ct tag out_pt) = buf_write out_pt pt"
    if "EVP_DecryptUpdate E key nonce ct = Some pt"
    using that by (simp add: aes256gcm_decrypt_def Let_def)
  show "fst (load_vault E pw w) = Inl AuthFailed"
    if "read_all VAULT_FILE w = Some buf \<and> decode_container (host_endian E) buf = Inr c \<and>
    kdf_pbkdf2_sha256 E pw (c_salt c) (c_iters c) (malloc E KEY_LEN) KEY_LEN = Some k \<and>
    \<not> EVP_DecryptFinal E k (c_nonce c) (c_ct c) (c_tag c)"
    using that by (auto intro: load_vault_mismatch)
  show "plain \<noteq> []" if "load_vault E pw w = (Inl AuthFailed, plain)"
    using load_vault_AuthFailedD [OF that] by auto
  show "take (length plain - 1) plain = replicate (length plain - 1) NUL"
    if "load_vault E pw w = (Inl AuthFailed, plain)"
    using load_vault_AuthFailedD [OF that] by auto
  show "\<exists>buf c k. read_all VAULT_FILE w = Some buf \<and> decode_container (host_endian E) buf = Inr c \<and>
         kdf_pbkdf2_sha256 E pw (c_salt c) (c_iters c) (malloc E KEY_LEN) KEY_LEN = Some k \<and>
         EVP_DecryptFinal E k (c_nonce c) (c_ct c) (c_tag c)"
    if "load_vault E pw w = (Inr L, plain)"
    using load_vault_InrD [OF that] by blast
qed

theorem decrypt_fails_with_one_signal_witness:
  "fst (load_vault (test_env LittleEndian) ''Secret1'' tampered_world) = Inl AuthFailed \<and>
   snd (load_vault (test_env LittleEndian) ''Secret1'' tampered_world) \<noteq> [] \<and>
   take (length (snd (load_vault (test_env LittleEndian) ''Secret1'' tampered_world)) - 1)
     (snd (load_vault (test_env LittleEndian) ''Secret1'' tampered_world)) =
     replicate (length (snd (load_vault (test_env LittleEndian) ''Secret1'' tampered_world)) - 1) NUL \<and>
   EVP_DecryptUpdate (test_env LittleEndian) ''key'' ''nonce'' ''txet'' = Some ''text'' \<and>
   snd (aes256gcm_decrypt (test_env LittleEndian) ''key'' ''nonce'' ''txet'' ''not the tag''
          (replicate 5 (CHR 0xAA))) = ''text'' @ [CHR 0xAA] \<and>
   fst (aes256gcm_decrypt (test_env LittleEndian) ''key'' ''nonce'' ''txet'' (test_tag ''key'')
          (replicate 5 (CHR 0xAA))) = 0 \<and>
   EVP_DecryptFinal (test_env LittleEndian) ''key'' ''nonce'' ''txet'' (test_tag ''key'')"
proof -
  let ?T = "test_env LittleEndian"
  let ?L = "load_vault ?T ''Secret1'' tampered_world"
  have l: "?L = (Inl AuthFailed, snd ?L)"
    using load_tampered by (simp add: prod_eq_iff)
  have u: "EVP_DecryptUpdate ?T ''key'' ''nonce'' ''txet'' = Some ''text''"
    by (simp add: test_env_def)
  have z: "fst (aes256gcm_decrypt ?T ''key'' ''nonce'' ''txet'' (test_tag ''key'') (replicate 5 (CHR 0xAA))) = 0"
    by (simp add: aes256gcm_decrypt_def test_env_def)
  from decrypt_fails_with_one_signal
    [of ?T "''key''" "''nonce''" "''txet''" "''not the tag''" "replicate 5 (CHR 0xAA)" "''text''"
        tampered_world _ _ "''Secret1''" _ "snd ?L"]
    l u
  have a: "snd (aes256gcm_decrypt ?T ''key'' ''nonce'' ''txet'' ''not the tag'' (replicate 5 (CHR 0xAA))) =
          ''text'' @ [CHR 0xAA]"
    and b: "take (length (snd ?L) - 1) (snd ?L) = replicate (length (snd ?L) - 1) NUL"
    and b': "snd ?L \<noteq> []"
    by (simp_all add: buf_write_def)
  from decrypt_fails_with_one_signal
    [of ?T "''key''" "''nonce''" "''txet''" "test_tag ''key''" "replicate 5 (CHR 0xAA)"] z
  have c: "EVP_DecryptFinal ?T ''key'' ''nonce'' ''txet'' (test_tag ''key'')" by simp
  from load_tampered u a b b' z c show ?thesis by simp
qed

subsection \<open>The round trip through blob and cipher\<close>

lemma roundtrip_rows_ok:
  assumes gcm: "gcm_ok E" and rows: "\<forall>r\<in>set L. row_ok r"
    and enc: "aes256gcm_encrypt E key nonce (serialize L) (malloc E (length (serialize L)))
               (malloc E TAG_LEN) \<noteq> None"
  shows "roundtrip_rows E key nonce L = Some L"
proof -
  define plain where "plain = serialize L"
  from enc obtain c0 t0 where eu: "EVP_EncryptUpdate E key nonce plain = Some c0"
    and gt: "EVP_GCM_GET_TAG E key nonce plain = Some t0"
    and e: "aes256gcm_encrypt E key nonce plain (malloc E (length plain)) (malloc E TAG_LEN) =
             Some (buf_write (malloc E (length plain)) c0, buf_write (malloc E TAG_LEN) t0)"
    by (auto simp: aes256gcm_encrypt_def plain_def split: option.splits)
  from gcm eu gt have lc0: "length c0 = length plain" and lt0: "length t0 = TAG_LEN"
    and du: "EVP_DecryptUpdate E key nonce c0 = Some plain"
    and df: "EVP_DecryptFinal E key nonce c0 t0"
    unfolding gcm_ok_def by blast+
  have e': "aes256gcm_encrypt E key nonce plain (malloc E (length plain)) (malloc E TAG_LEN) = Some (c0, t0)"
    using lc0 lt0 by (simp add: e buf_write_full length_malloc)
  have d: "aes256gcm_decrypt E key nonce c0 t0 (malloc E (length plain + 1)) =
             (0, plain @ [heap_junk E (length plain)])"
    using du df
    by (simp add: aes256gcm_decrypt_def buf_write_def length_malloc malloc_def)
  have "parse_lines ((plain @ [heap_junk E (length plain)])[length plain := NUL]) = L"
    using parse_serialize [OF rows, of "[]"] by (simp add: plain_def)
  moreover have "aes256gcm_decrypt E key nonce c0 t0 (malloc E (Suc (length plain))) =
             (0, plain @ [heap_junk E (length plain)])"
    using d by simp
  ultimately show ?thesis
    by (simp add: roundtrip_rows_def Let_def plain_def [symmetric] e')
qed

lemma strtok_r_length:
  "strtok_r s d = Some (tok, rest) \<Longrightarrow> length tok + length rest \<le> length s"
proof -
  assume a: "strtok_r s d = Some (tok, rest)"
  define s' where "s' = dropWhile (\<lambda>c. c \<in> set d) s"
  from a have tok: "tok = takeWhile (\<lambda>c. c \<notin> set d) s'"
    and rest: "rest = drop 1 (dropWhile (\<lambda>c. c \<notin> set d) s')"
    by (auto simp: strtok_r_def s'_def Let_def split: if_splits)
  have "length (takeWhile (\<lambda>c. c \<notin> set d) s') + length (dropWhile (\<lambda>c. c \<notin> set d) s') = length s'"
    by (metis length_append takeWhile_dropWhile_id)
  moreover have "length s' \<le> length s" unfolding s'_def by (rule length_dropWhile_le)
  ultimately show ?thesis unfolding tok rest by simp
qed

lemma show_fields_short:
  assumes "show_fields row = Some (svc, usr, pwd)"
  shows "length svc + length usr + length pwd < MAX_LINE"
proof -
  define buf where "buf = c_str (take (MAX_LINE - 1) row)"
  have lb: "length buf \<le> MAX_LINE - 1"
    unfolding buf_def c_str_def
    by (rule order_trans [OF length_takeWhile_le]) simp
  from assms obtain r1 r2 r3 where 1: "strtok_r buf [TAB] = Some (svc, r1)"
    and 2: "strtok_r r1 [TAB] = Some (usr, r2)" and 3: "strtok_r r2 [TAB] = Some (pwd, r3)"
    unfolding show_fields_def Let_def buf_def [symmetric]
    by (auto split: option.splits)
  from strtok_r_length [OF 1] strtok_r_length [OF 2] strtok_r_length [OF 3] lb
  show ?thesis by (simp add: MAX_LINE_def)
qed

text \<open>
  C1, as claimed, fails: fields free of tab and newline are not enough. A record whose
  service begins with \<open>#\<close> is dropped by the parser as a comment; a record with an empty
  field does not split back into three fields, because \<open>strtok\<close> merges adjacent tabs;
  a record whose joined row is longer than 1023 bytes comes back cut.
\<close>

theorem roundtrip_loses_records:
  "roundtrip_rows (test_env LittleEndian) ''key'' ''nonce''
     (rows_of_records [(''#git'', ''alice'', ''hunter2'')]) = Some [] \<and>
   map show_fields (rows_of_records [(''git'', [], ''hunter2'')]) = [None] \<and>
   map show_fields (rows_of_records [(''git'', ''alice'', replicate 1100 (CHR ''a''))]) \<noteq>
     [Some (''git'', ''alice'', replicate 1100 (CHR ''a''))]"
proof (intro conjI)
  show "roundtrip_rows (test_env LittleEndian) ''key'' ''nonce''
     (rows_of_records [(''#git'', ''alice'', ''hunter2'')]) = Some []"
    by (simp add: roundtrip_rows_def rows_of_records_def add_line_def MAX_LINE_def serialize_def
        aes256gcm_encrypt_def aes256gcm_decrypt_def test_env_def buf_write_def malloc_def Let_def
        parse_lines_eq_spec parse_spec_def c_str_def hdr_def NUL_def LF_def TAB_def keep_line_def
        test_tag_def TAG_LEN_def)
  show "map show_fields (rows_of_records [(''git'', [], ''hunter2'')]) = [None]"
    by (simp add: rows_of_records_def add_line_def MAX_LINE_def show_fields_def c_str_def
        strtok_r_def NUL_def TAB_def Let_def)
  show "map show_fields (rows_of_records [(''git'', ''alice'', replicate 1100 (CHR ''a''))]) \<noteq>
     [Some (''git'', ''alice'', replicate 1100 (CHR ''a''))]"
  proof
    assume "map show_fields (rows_of_records [(''git'', ''alice'', replicate 1100 (CHR ''a''))]) =
     [Some (''git'', ''alice'', replicate 1100 (CHR ''a''))]"
    then have "show_fields (add_line ''git'' ''alice'' (replicate 1100 (CHR ''a''))) =
      Some (''git'', ''alice'', replicate 1100 (CHR ''a''))"
      by (simp add: rows_of_records_def)
    from show_fields_short [OF this] show False by (simp add: MAX_LINE_def)
  qed
qed


text \<open>
  C1, amended. For every record sequence whose fields are non-empty and free of tab,
  newline and NUL, whose service does not begin with \<open>#\<close> and whose joined row is at
  most 1023 bytes long: serializing the rows, encrypting the blob, decrypting the result
  under the same key and nonce and parsing it yields exactly the rows, in order, and
  each row splits back into exactly the fields of its record. (The cipher is assumed to
  meet \<open>gcm_ok\<close> and the encryption call to succeed.)
\<close>

theorem roundtrip_preserves_records:
  assumes "gcm_ok E" and "\<forall>r\<in>set R. record_ok r"
    and "aes256gcm_encrypt E key nonce (serialize (rows_of_records R))
           (malloc E (length (serialize (rows_of_records R)))) (malloc E TAG_LEN) \<noteq> None"
  shows "roundtrip_rows E key nonce (rows_of_records R) = Some (rows_of_records R) \<and>
         map show_fields (rows_of_records R) = map Some R"
proof
  have "\<forall>r\<in>set (rows_of_records R). row_ok r"
    using assms(2) by (auto simp: rows_of_records_def dest: record_row_ok)
  with assms(1) show "roundtrip_rows E key nonce (rows_of_records R) = Some (rows_of_records R)"
    using assms(3) by (rule roundtrip_rows_ok)
  show "map show_fields (rows_of_records R) = map Some R"
    using assms(2) by (auto simp: rows_of_records_def dest: show_fields_add_line)
qed

theorem roundtrip_preserves_records_witness:
  "gcm_ok (test_env LittleEndian) \<and>
   record_ok (''github'', ''alice'', ''hunter2'') \<and> record_ok (''mail'', ''bob'', ''pw'') \<and>
   roundtrip_rows (test_env LittleEndian) ''key'' ''nonce''
     (rows_of_records [(''github'', ''alice'', ''hunter2''), (''mail'', ''bob'', ''pw'')]) =
     Some (rows_of_records [(''github'', ''alice'', ''hunter2''), (''mail'', ''bob'', ''pw'')]) \<and>
   map show_fields (rows_of_records [(''github'', ''alice'', ''hunter2''), (''mail'', ''bob'', ''pw'')]) =
     [Some (''github'', ''alice'', ''hunter2''), Some (''mail'', ''bob'', ''pw'')]"
proof -
  let ?T = "test_env LittleEndian"
  let ?R = "[(''github'', ''alice'', ''hunter2''), (''mail'', ''bob'', ''pw'')]"
  have ok: "record_ok (''github'', ''alice'', ''hunter2'')" "record_ok (''mail'', ''bob'', ''pw'')"
    by (simp_all add: field_ok_def TAB_def LF_def NUL_def MAX_LINE_def)
  then have all: "\<forall>r\<in>set ?R. record_ok r" by simp
  have enc: "aes256gcm_encrypt ?T ''key'' ''nonce'' (serialize (rows_of_records ?R))
           (malloc ?T (length (serialize (rows_of_records ?R)))) (malloc ?T TAG_LEN) \<noteq> None"
    by (simp add: aes256gcm_encrypt_def test_env_def)
  from roundtrip_preserves_records [OF test_env_gcm_ok all enc] ok test_env_gcm_ok [of LittleEndian]
  show ?thesis by simp
qed

subsection \<open>What the parser keeps and what \<open>show\<close> skips\<close>

lemma show_loop_skips:
  "show_fields row = None \<Longrightarrow> show_loop (rows1 @ row # rows2) q = show_loop (rows1 @ rows2) q"
  by (induction rows1) (auto split: option.splits)

lemma orphan_rows_ok: "\<forall>r\<in>set orphan_rows. row_ok r"
  by (simp add: orphan_rows_def add_line_def MAX_LINE_def row_ok_def keep_line_def TAB_def LF_def NUL_def)

text \<open>
  C5, as claimed, fails in its last part: a row that does not yield three fields is not
  reported. The vault below holds the row of a record with empty user and password,
  which does not split into three fields; \<open>show\<close> for another service passes over it
  and ends with exit status 0. No path of the program reports a corrupt row.
\<close>

theorem malformed_row_is_skipped_silently:
  "parse_lines (serialize orphan_rows @ [NUL]) = orphan_rows \<and>
   show_fields (add_line ''orphan'' [] []) = None \<and>
   fst (cmd_show (test_env LittleEndian) (Some ''github'')
         (snd (save_vault (test_env LittleEndian) orphan_rows ''Secret1'' (old_world NoFault)))) =
     Inr (show_output ''github'' ''alice'' ''hunter2'') \<and>
   exit_status (fst (cmd_show (test_env LittleEndian) (Some ''github'')
         (snd (save_vault (test_env LittleEndian) orphan_rows ''Secret1'' (old_world NoFault))))) = 0"
proof -
  let ?T = "test_env LittleEndian"
  let ?S = "save_vault ?T orphan_rows ''Secret1'' (old_world NoFault)"
  have s: "?S = (Inr (), snd ?S)"
    using save_ok_test [of LittleEndian orphan_rows "''Secret1''"] by (simp add: prod_eq_iff)
  have 1: "parse_lines (serialize orphan_rows @ [NUL]) = orphan_rows"
    using orphan_rows_ok by (rule parse_serialize)
  have 2: "show_fields (add_line ''orphan'' [] []) = None"
    by (simp add: add_line_def MAX_LINE_def show_fields_def c_str_def strtok_r_def NUL_def TAB_def Let_def)
  have 3: "show_fields (add_line ''github'' ''alice'' ''hunter2'') = Some (''github'', ''alice'', ''hunter2'')"
    by (rule show_fields_add_line [THEN conjunct2])
       (simp add: field_ok_def TAB_def LF_def NUL_def MAX_LINE_def)
  define W where "W = snd ?S"
  have t: "tty W = [Some ''Secret1'', Some ''Secret1'', Some ''Secret1'', Some ''Secret1'']"
    using save_vault_rest [OF s] by (simp add: W_def old_world_def test_world_def)
  have small: "length (serialize orphan_rows) < 2 ^ 32"
    by (simp add: orphan_rows_def serialize_def hdr_def add_line_def MAX_LINE_def)
  have l: "fst (load_vault ?T ''Secret1'' (W\<lparr>tty := x\<rparr>)) = Inr orphan_rows" for x
    unfolding W_def by (rule load_after_save [OF test_env_gcm_ok s orphan_rows_ok small]) simp
  have "show_loop orphan_rows ''github'' = Some (''github'', ''alice'', ''hunter2'')"
    by (simp add: orphan_rows_def 2 3)
  then have "fst (cmd_show ?T (Some ''github'') W) = Inr (show_output ''github'' ''alice'' ''hunter2'')"
    by (simp add: cmd_show_def prompt_hidden_def t l)
  with 1 2 show ?thesis unfolding W_def by (simp add: exit_status_def)
qed

text \<open>
  C5, amended. For every decrypted blob, \<open>parse_lines\<close> splits the text before the first
  NUL on newline, drops every line that begins with \<open>#\<close> (the header is one) and every
  empty line, and keeps each other line whole as a row; it does not look at tabs. The
  split on tab happens in \<open>show\<close>, row by row, and a row that does not yield three
  fields is skipped there without any report: the search goes on as if the row were
  not in the vault.
\<close>

theorem parse_keeps_rows_show_skips:
  "parse_lines plain = parse_spec plain \<and>
   (show_fields row = None \<longrightarrow>
      show_loop (rows1 @ row # rows2) q = show_loop (rows1 @ rows2) q)"
  by (simp add: parse_lines_eq_spec show_loop_skips)

theorem parse_keeps_rows_show_skips_witness:
  "show_fields (add_line ''orphan'' [] []) = None \<and>
   parse_lines (serialize orphan_rows) = parse_spec (serialize orphan_rows) \<and>
   show_loop ([] @ add_line ''orphan'' [] [] # [add_line ''github'' ''alice'' ''hunter2'']) ''github'' =
     show_loop ([] @ [add_line ''github'' ''alice'' ''hunter2'']) ''github''"
proof -
  have 2: "show_fields (add_line ''orphan'' [] []) = None"
    by (simp add: add_line_def MAX_LINE_def show_fields_def c_str_def strtok_r_def NUL_def TAB_def Let_def)
  from parse_keeps_rows_show_skips
    [of "serialize orphan_rows" "add_line ''orphan'' [] []" "[]"
        "[add_line ''github'' ''alice'' ''hunter2'']" "''github''"] 2
  show ?thesis by simp
qed

subsection \<open>A long record is cut by \<open>add\<close>\<close>










subsection \<open>\<open>init\<close> and \<open>add\<close> refuse before they write\<close>

text \<open>
  C7. When the container file exists, \<open>init\<close> returns at once with exit status 1: the
  world it leaves is the world it found, so the file is unchanged, no password was asked
  for and no random byte was drawn.
\<close>

theorem cmd_init_never_overwrites:
  assumes "files w VAULT_FILE = Some old"
  shows "cmd_init E w = (Inl RefuseOverwrite, w) \<and>
         exit_status (fst (cmd_init E w)) = 1 \<and>
         files (snd (cmd_init E w)) VAULT_FILE = Some old"
  using assms by (simp add: cmd_init_def file_exists_def exit_status_def)

theorem cmd_init_never_overwrites_witness:
  "files (test_world\<lparr>files := [VAULT_FILE \<mapsto> ''old vault'']\<rparr>) VAULT_FILE = Some ''old vault'' \<and>
   cmd_init (test_env LittleEndian) (test_world\<lparr>files := [VAULT_FILE \<mapsto> ''old vault'']\<rparr>) =
     (Inl RefuseOverwrite, test_world\<lparr>files := [VAULT_FILE \<mapsto> ''old vault'']\<rparr>) \<and>
   exit_status (fst (cmd_init (test_env LittleEndian) (test_world\<lparr>files := [VAULT_FILE \<mapsto> ''old vault'']\<rparr>))) = 1"
  using cmd_init_never_overwrites
    [of "test_world\<lparr>files := [VAULT_FILE \<mapsto> ''old vault'']\<rparr>" "''old vault''" "test_env LittleEndian"]
  by (simp add: exit_status_def)

text \<open>
  C9. When one of the three fields of \<open>add\<close> holds a tab or a newline, the command
  returns with exit status 1 before it prompts, loads or saves: the world, and with it
  every file, is as before.
\<close>

theorem cmd_add_rejects_delimiters:
  assumes "TAB \<in> set svc \<union> set usr \<union> set pwd \<or> LF \<in> set svc \<union> set usr \<union> set pwd"
  shows "cmd_add E (Some svc) (Some usr) (Some pwd) w = (Inl BadField, w) \<and>
         exit_status (fst (cmd_add E (Some svc) (Some usr) (Some pwd) w)) = 1 \<and>
         files (snd (cmd_add E (Some svc) (Some usr) (Some pwd) w)) = files w"
  using assms by (auto simp: cmd_add_def exit_status_def)

theorem cmd_add_rejects_delimiters_witness:
  "TAB \<in> set ''git'' \<union> set (''al'' @ [TAB] @ ''ice'') \<union> set ''hunter2'' \<and>
   cmd_add (test_env LittleEndian) (Some ''git'') (Some (''al'' @ [TAB] @ ''ice'')) (Some ''hunter2'') test_world
     = (Inl BadField, test_world)"
  using cmd_add_rejects_delimiters
    [of "''git''" "''al'' @ [TAB] @ ''ice''" "''hunter2''" "test_env LittleEndian" test_world]
  by simp

end
